theory Spec2Isabelle
  imports
    Complex_Main
    "HOL-Library.Char_ord"
    "HOL-Library.List_Lexorder"
    "HOL-Library.Product_Lexorder"
    "HOL-Library.Multiset"
    "HOL-Library.Sublist"
begin

section \<open>Data model of \<^verbatim>\<open>server.js\<close>\<close>

text \<open>
  The four tables created by \<^verbatim>\<open>initDb\<close>. A row is a record, a table the list of its
  rows in rowid order. Columns declared without \<^verbatim>\<open>NOT NULL\<close> hold an \<open>option\<close>
  (\<open>None\<close> is SQL \<^verbatim>\<open>NULL\<close>). Text is a \<open>string\<close>; the order on strings is the
  code-unit-wise lexicographic order of SQLite's default \<^verbatim>\<open>BINARY\<close> collation.
  A stored amount (\<^verbatim>\<open>REAL\<close> column) is a finite double, given by its real value;
  a stored \<^verbatim>\<open>INTEGER\<close> is a signed 64-bit integer, given by its value. The field
  \<open>tx_id\<close> is column \<^verbatim>\<open>id\<close> and \<open>tx_type\<close> is column \<^verbatim>\<open>type\<close> of table
  \<^verbatim>\<open>transactions\<close>.
\<close>

record transaction =
  tx_id :: int
  date :: string
  reference :: string
  tx_type :: string
  account :: string
  debit :: "real option"
  credit :: "real option"
  created_at :: "string option"

record inventory_item =
  item_id :: int
  sku :: string
  item_name :: string
  stock :: "int option"
  reorder_level :: "int option"
  status :: "string option"

record category =
  cat_id :: int
  name :: string

record category_sale =
  sale_id :: int
  category_id :: int
  month :: string
  amount :: real

text \<open>
  The database. \<open>seq\<close> is the \<^verbatim>\<open>AUTOINCREMENT\<close> counter of table
  \<^verbatim>\<open>transactions\<close> (the largest id handed out so far). The connection and the
  file do not fail in this model: a handler reaches its \<^verbatim>\<open>catch\<close> branch by an
  exception of its own code or by a statement that the engine refuses (an integer
  overflow in \<^verbatim>\<open>SUM\<close>, a \<^verbatim>\<open>LIMIT\<close> or \<^verbatim>\<open>OFFSET\<close> that it does not take
  for an integer).
\<close>

record store =
  transactions :: "transaction list"
  inventory :: "inventory_item list"
  categories :: "category list"
  category_sales :: "category_sale list"
  seq :: int

text \<open>
  A handler answers with its data (\<^verbatim>\<open>success: true\<close>) or with an error:
  \<open>Bad_request\<close> is status 400 with \<^verbatim>\<open>success: false\<close>, \<open>Server_error\<close> the
  \<^verbatim>\<open>catch\<close> branch, status 500.
\<close>

datatype error = Bad_request | Server_error

section \<open>Numbers and the runtime\<close>

text \<open>
  A JavaScript number, which is also the value of a \<^verbatim>\<open>REAL\<close> expression of the
  database: a finite double (given by its real value), an infinity or \<^verbatim>\<open>NaN\<close>. JSON
  writes an infinity and \<^verbatim>\<open>NaN\<close> as \<^verbatim>\<open>null\<close>.
\<close>

datatype number = Finite real | Infinity | Minus_Infinity | Not_a_Number

text \<open>
  What the handlers take from the JavaScript runtime and from the database engine.
  \<open>now_year\<close> and \<open>now_month\<close> are \<^verbatim>\<open>now.getFullYear()\<close> and
  \<^verbatim>\<open>now.getMonth()\<close> (local time, months from \<open>0\<close>); \<open>utc_year\<close> and
  \<open>utc_month\<close> are the same instant's fields in UTC. Months are counted by their
  index \<open>12 * year + month\<close>. \<open>local_offset k\<close> is the number of minutes the server's
  local time is ahead of UTC at local midnight of the first day of the month with index
  \<open>k\<close> (negative west of Greenwich; less than a day in magnitude). \<open>month_label\<close> is
  the label callback of the series:
  \<^verbatim>\<open>new Date(y, parseInt(mm,10)-1).toLocaleString('en',{month:'short'})\<close> on the two
  parts of a key; it depends on the locale data of the runtime and returns a string for
  every key.

  The arithmetic of doubles is not part of the server's code. \<open>real_sum xs\<close> is what
  the engine's \<^verbatim>\<open>SUM\<close> makes of the \<^verbatim>\<open>REAL\<close> values \<open>xs\<close> (in row order, none of
  them \<^verbatim>\<open>NULL\<close>, at least one): the engine adds doubles, so the result may be rounded,
  and it is an infinity when the sum overflows. \<open>to_double x\<close> is the double that an
  arithmetic operation of JavaScript returns when its exact result is \<open>x\<close>: the double
  nearest to \<open>x\<close>, an infinity beyond the largest double.
\<close>

record env =
  now_year :: int
  now_month :: int
  utc_year :: int
  utc_month :: int
  local_offset :: "int \<Rightarrow> int"
  month_label :: "string \<Rightarrow> string"
  real_sum :: "real list \<Rightarrow> number"
  to_double :: "real \<Rightarrow> number"

section \<open>SQL and JavaScript primitives\<close>

text \<open>\<^verbatim>\<open>SUM\<close> skips \<^verbatim>\<open>NULL\<close>s and is \<^verbatim>\<open>NULL\<close> when no value is left.\<close>

fun non_null :: "'a option list \<Rightarrow> 'a list" where
  "non_null [] = []"
| "non_null (None # vs) = non_null vs"
| "non_null (Some v # vs) = v # non_null vs"

text \<open>
  \<^verbatim>\<open>SUM\<close> over \<^verbatim>\<open>REAL\<close> values is the engine's sum of doubles; a sum that is
  \<^verbatim>\<open>NaN\<close> is returned as \<^verbatim>\<open>NULL\<close>.
\<close>

definition sql_sum_real :: "env \<Rightarrow> real option list \<Rightarrow> number option" where
  "sql_sum_real e vs =
     (case non_null vs of
        [] \<Rightarrow> None
      | x # xs \<Rightarrow> (case real_sum e (x # xs) of Not_a_Number \<Rightarrow> None | n \<Rightarrow> Some n))"




definition ifnull :: "'a option \<Rightarrow> 'a \<Rightarrow> 'a" where
  "ifnull v d = (case v of None \<Rightarrow> d | Some x \<Rightarrow> x)"

text \<open>
  \<^verbatim>\<open>x || 0\<close>: a falsy number is replaced by \<open>0\<close>. The falsy numbers are \<open>0\<close>
  and \<^verbatim>\<open>NaN\<close>.
\<close>

definition falsy_number :: "number \<Rightarrow> bool" where
  "falsy_number a = (a = Finite 0 \<or> a = Not_a_Number)"

definition number_or_zero :: "number \<Rightarrow> number" where
  "number_or_zero a = (if falsy_number a then Finite 0 else a)"



section \<open>\<^verbatim>\<open>GET /api/stats\<close>\<close>



section \<open>\<^verbatim>\<open>GET /api/revenue-series\<close>\<close>

text \<open>
  The fields of \<^verbatim>\<open>toISOString\<close> have a fixed number of decimal digits:
  \<open>fixed w n\<close> is the last \<open>w\<close> digits of \<open>n\<close>, with leading zeros.
\<close>

definition digit :: "nat \<Rightarrow> char" where
  "digit n = char_of (48 + n)"

fun fixed :: "nat \<Rightarrow> nat \<Rightarrow> string" where
  "fixed 0 n = []"
| "fixed (Suc w) n = fixed w (n div 10) @ [digit (n mod 10)]"

text \<open>
  The day number (days since 1970-01-01) of a date of the proleptic Gregorian calendar,
  which is what \<^verbatim>\<open>MakeDay\<close> computes; months from \<open>1\<close>.
\<close>

definition days_from_civil :: "int \<Rightarrow> int \<Rightarrow> int \<Rightarrow> int" where
  "days_from_civil y m d =
     (let y' = (if m \<le> 2 then y - 1 else y);
          era = y' div 400;
          yoe = y' - era * 400;
          doy = (153 * (if 2 < m then m - 3 else m + 9) + 2) div 5 + d - 1;
          doe = yoe * 365 + yoe div 4 - yoe div 100 + doy
      in era * 146097 + doe - 719468)"

text \<open>
  The \<^verbatim>\<open>Date\<close> constructor reads a year from \<open>0\<close> to \<open>99\<close> as a year of the
  twentieth century.
\<close>

definition full_year :: "int \<Rightarrow> int" where
  "full_year y = (if 0 \<le> y \<and> y \<le> 99 then 1900 + y else y)"

text \<open>
  The year of \<^verbatim>\<open>toISOString\<close>: four digits from year \<open>0\<close> to \<open>9999\<close>, a sign
  and six digits otherwise.
\<close>

definition iso_year :: "int \<Rightarrow> string" where
  "iso_year y =
     (if 0 \<le> y \<and> y \<le> 9999 then fixed 4 (nat y)
      else (if y < 0 then CHR ''-'' else CHR ''+'') # fixed 6 (nat \<bar>y\<bar>))"

text \<open>The day number of the first day of the month with index \<open>k\<close>.\<close>

definition first_day :: "int \<Rightarrow> int" where
  "first_day k = days_from_civil (k div 12) (k mod 12 + 1) 1"

text \<open>
  \<^verbatim>\<open>new Date(year, month, 1).toISOString().slice(0,7)\<close> for the month with index
  \<open>k\<close>. The date is local midnight of the first of the month; \<open>t\<close> is its time
  value in UTC, in minutes. A time value beyond \<open>8.64e15\<close> milliseconds
  (\<open>144000000000\<close> minutes) from the epoch is invalid, and \<^verbatim>\<open>toISOString\<close> throws a
  \<^verbatim>\<open>RangeError\<close> on it (\<open>None\<close>). \<^verbatim>\<open>toISOString\<close> prints the fields of the
  instant in UTC: as an offset is less than a day, the UTC day \<open>t div 1440\<close> is the
  first of the month or the day before it, the last day of the month before. Only the
  first seven characters of the string are kept, so the day and the time are not
  rendered.
\<close>

definition ym :: "env \<Rightarrow> int \<Rightarrow> string option" where
  "ym e k =
     (let t = first_day k * 1440 - local_offset e k
      in if 144000000000 < \<bar>t\<bar> then None
         else let u = (if t div 1440 < first_day k then k - 1 else k)
              in Some (take 7 (iso_year (u div 12) @ ''-'' @ fixed 2 (nat (u mod 12 + 1)))))"

text \<open>
  The bucket loop \<^verbatim>\<open>for (let i = monthsCount-1; i >= 0; i--)\<close>, with the array
  \<^verbatim>\<open>months\<close> as \<open>ms\<close>; an exception leaves the handler through its
  \<^verbatim>\<open>catch\<close>.
\<close>

function months_loop :: "env \<Rightarrow> int \<Rightarrow> string list \<Rightarrow> error + string list" where
  "months_loop e i ms =
     (if 0 \<le> i then
        (case ym e (12 * full_year (now_year e) + (now_month e - i)) of
           None \<Rightarrow> Inl Server_error
         | Some s \<Rightarrow> months_loop e (i - 1) (ms @ [s]))
      else Inr ms)"
  by pat_completeness auto
termination
  by (relation "measure (\<lambda>(e, i, ms). nat (i + 1))") auto

declare months_loop.simps [simp del]

text \<open>
  The grouped query
  \<^verbatim>\<open>SELECT substr(date,1,7) as month, IFNULL(SUM(debit),0) as amount FROM transactions
  WHERE type = ? AND date >= ? GROUP BY month\<close>: one row for each month key among the
  selected transactions.
\<close>

definition series_rows :: "env \<Rightarrow> string \<Rightarrow> string \<Rightarrow> transaction list \<Rightarrow> (string \<times> number) list" where
  "series_rows e ty lb txs =
     (let sel = filter (\<lambda>t. tx_type t = ty \<and> lb \<le> date t) txs
      in map (\<lambda>k. (k, ifnull (sql_sum_real e (map debit (filter (\<lambda>t. take 7 (date t) = k) sel))) (Finite 0)))
           (remdups (map (\<lambda>t. take 7 (date t)) sel)))"

text \<open>\<^verbatim>\<open>rows.forEach(r => map[r.month] = r.amount)\<close> on an empty object.\<close>

definition to_map :: "(string \<times> number) list \<Rightarrow> (string \<rightharpoonup> number)" where
  "to_map rows = fold (\<lambda>r m. m(fst r \<mapsto> snd r)) rows Map.empty"

text \<open>
  \<^verbatim>\<open>Math.round\<close> rounds a finite number to the nearest integer, a half upwards,
  and leaves the other numbers as they are.
\<close>

fun Math_round :: "number \<Rightarrow> number" where
  "Math_round (Finite x) = Finite (of_int \<lfloor>x + 1 / 2\<rfloor>)"
| "Math_round a = a"

text \<open>
  \<^verbatim>\<open>map[m] ? Math.round(map[m]) : 0\<close>: a missing key and a falsy number give
  \<open>0\<close>.
\<close>

definition bucket :: "(string \<rightharpoonup> number) \<Rightarrow> string \<Rightarrow> number" where
  "bucket mp m =
     (case mp m of None \<Rightarrow> Finite 0 | Some a \<Rightarrow> if falsy_number a then Finite 0 else Math_round a)"

text \<open>\<^verbatim>\<open>months[0] + '-01'\<close>; on an empty array \<^verbatim>\<open>months[0]\<close> is undefined.\<close>

definition lower_bound :: "string list \<Rightarrow> string" where
  "lower_bound ms = (case ms of [] \<Rightarrow> ''undefined'' | m # _ \<Rightarrow> m) @ ''-01''"

record series_data =
  labels :: "string list"
  months :: "string list"
  series_revenue :: "number list"
  series_expenses :: "number list"

text \<open>
  The handler. The query parameter \<^verbatim>\<open>months\<close> is \<open>None\<close> when absent or empty
  (then \<^verbatim>\<open>'6'\<close> is parsed) and \<open>Some n\<close> when \<^verbatim>\<open>parseInt\<close> reads the integer
  \<open>n\<close> from it; a parameter that is not a number is not modelled. The fields
  \<^verbatim>\<open>revenue\<close> and \<^verbatim>\<open>expenses\<close> of the response are \<open>series_revenue\<close> and
  \<open>series_expenses\<close>.
\<close>

definition revenue_series :: "env \<Rightarrow> store \<Rightarrow> int option \<Rightarrow> error + series_data" where
  "revenue_series e st q =
     (let monthsCount = (case q of None \<Rightarrow> 6 | Some n \<Rightarrow> n)
      in case months_loop e (monthsCount - 1) [] of
           Inl err \<Rightarrow> Inl err
         | Inr ms \<Rightarrow>
             (let revenueRows = series_rows e ''invoice'' (lower_bound ms) (transactions st);
                  expenseRows = series_rows e ''expense'' (lower_bound ms) (transactions st);
                  revMap = to_map revenueRows;
                  expMap = to_map expenseRows
              in Inr \<lparr> labels = map (month_label e) ms,
                       months = ms,
                       series_revenue = map (bucket revMap) ms,
                       series_expenses = map (bucket expMap) ms \<rparr>))"

section \<open>\<^verbatim>\<open>GET /api/category-sales\<close>\<close>

text \<open>
  \<^verbatim>\<open>ORDER BY key DESC\<close>. Rows with equal keys come in an order the engine does not
  promise; the model fixes one.
\<close>

definition order_desc :: "('a \<Rightarrow> 'k::linorder) \<Rightarrow> 'a list \<Rightarrow> 'a list" where
  "order_desc key rows = rev (sort_key key rows)"

text \<open>\<^verbatim>\<open>(new Date()).toISOString().slice(0,7)\<close>: the current month in UTC.\<close>

definition utc_now_key :: "env \<Rightarrow> string" where
  "utc_now_key e = take 7 (iso_year (utc_year e) @ ''-'' @ fixed 2 (nat (utc_month e + 1)))"

text \<open>
  \<^verbatim>\<open>x || d\<close> on a query parameter: an absent parameter (\<open>None\<close>) and the empty
  string are falsy.
\<close>

definition or_default :: "string option \<Rightarrow> string \<Rightarrow> string" where
  "or_default x d = (case x of None \<Rightarrow> d | Some s \<Rightarrow> if s = [] then d else s)"

text \<open>
  The query
  \<^verbatim>\<open>SELECT c.name, IFNULL(SUM(cs.amount),0) as total FROM categories c
  LEFT JOIN category_sales cs ON cs.category_id = c.id AND cs.month = ?
  GROUP BY c.id ORDER BY total DESC\<close>.
  \<^verbatim>\<open>id\<close> is the primary key of \<^verbatim>\<open>categories\<close>, so every group is one category;
  a category without a matching sale is joined to one row of \<^verbatim>\<open>NULL\<close>s, whose
  \<^verbatim>\<open>SUM\<close> is \<^verbatim>\<open>NULL\<close>. A response row is the pair of \<^verbatim>\<open>name\<close> and
  \<^verbatim>\<open>total\<close>.
\<close>

definition category_total :: "env \<Rightarrow> category_sale list \<Rightarrow> string \<Rightarrow> category \<Rightarrow> string \<times> number" where
  "category_total e sales m c =
     (name c,
      ifnull (sql_sum_real e (map (\<lambda>cs. Some (amount cs))
                (filter (\<lambda>cs. category_id cs = cat_id c \<and> month cs = m) sales))) (Finite 0))"

text \<open>
  The order of the engine on numbers: minus infinity first, then the finite numbers in
  their order, then infinity. (A total is never \<^verbatim>\<open>NaN\<close>.)
\<close>

fun number_key :: "number \<Rightarrow> int \<times> real" where
  "number_key Minus_Infinity = (- 1, 0)"
| "number_key (Finite x) = (0, x)"
| "number_key Infinity = (1, 0)"
| "number_key Not_a_Number = (- 2, 0)"

definition category_sales_month :: "env \<Rightarrow> store \<Rightarrow> string option \<Rightarrow> error + (string \<times> number) list" where
  "category_sales_month e st mq =
     (let m = or_default mq (utc_now_key e)
      in Inr (order_desc (\<lambda>r. number_key (snd r))
                (map (category_total e (category_sales st) m) (categories st))))"

section \<open>\<^verbatim>\<open>GET /api/transactions\<close>\<close>

text \<open>
  \<^verbatim>\<open>String.prototype.trim\<close> removes white space and line terminators from both
  ends; among the characters of this model these are tab, line feed, vertical tab, form
  feed, carriage return, space and the no-break space.
\<close>

definition is_space :: "char \<Rightarrow> bool" where
  "is_space c = (of_char c \<in> {9, 10, 11, 12, 13, 32, 160 :: nat})"

definition trim :: "string \<Rightarrow> string" where
  "trim s = rev (dropWhile is_space (rev (dropWhile is_space s)))"

text \<open>
  SQLite's \<^verbatim>\<open>LIKE\<close> (no \<^verbatim>\<open>ESCAPE\<close>, \<^verbatim>\<open>case_sensitive_like\<close> off, as the server
  leaves it): \<^verbatim>\<open>%\<close> matches any run of characters, \<^verbatim>\<open>_\<close> any one character,
  and any other character matches itself, the ASCII letters without regard to case.
\<close>

definition ascii_lower :: "char \<Rightarrow> char" where
  "ascii_lower c = (if CHR ''A'' \<le> c \<and> c \<le> CHR ''Z'' then char_of (of_char c + (32 :: nat)) else c)"

fun like :: "string \<Rightarrow> string \<Rightarrow> bool" where
  "like [] s = (s = [])"
| "like (p # ps) [] = (p = CHR ''%'' \<and> like ps [])"
| "like (p # ps) (c # cs) =
     (if p = CHR ''%'' then like ps (c # cs) \<or> like (p # ps) cs
      else (p = CHR ''_'' \<or> ascii_lower p = ascii_lower c) \<and> like ps cs)"

text \<open>
  \<^verbatim>\<open>LIMIT ? OFFSET ?\<close>: a negative limit is no limit, a negative offset is no
  offset.
\<close>

definition limit_offset :: "int \<Rightarrow> int \<Rightarrow> 'a list \<Rightarrow> 'a list" where
  "limit_offset l k rows =
     (if l < 0 then drop (nat k) rows else take (nat l) (drop (nat k) rows))"

text \<open>
  The handler. \<open>q\<close> and \<open>ty\<close> are the query parameters \<^verbatim>\<open>q\<close> and \<^verbatim>\<open>type\<close>
  (\<open>None\<close> when absent); \<open>lq\<close> and \<open>oq\<close> are \<^verbatim>\<open>limit\<close> and \<^verbatim>\<open>offset\<close>,
  \<open>None\<close> when absent or empty and \<open>Some n\<close> when \<^verbatim>\<open>parseInt\<close> reads the
  integer \<open>n\<close> (a parameter that is not a number is not modelled). The conditions
  are added to the statement in the order of the source. Both numbers are bound to
  \<^verbatim>\<open>LIMIT ? OFFSET ?\<close>, which requires integers. The driver binds a number beyond
  32 bits as a double, and the engine takes a double for an integer only when its value
  lies strictly between the smallest and the largest signed 64-bit integer
  (\<open>must_be_int\<close>); otherwise the statement fails (\<^verbatim>\<open>datatype mismatch\<close>) and the
  handler's \<^verbatim>\<open>catch\<close> answers.
\<close>

definition must_be_int :: "int \<Rightarrow> bool" where
  "must_be_int n = (- 9223372036854775808 < n \<and> n < 9223372036854775807)"

definition transactions_list ::
  "store \<Rightarrow> string option \<Rightarrow> string option \<Rightarrow> int option \<Rightarrow> int option \<Rightarrow> error + transaction list" where
  "transactions_list st q ty lq oq =
     (let q' = trim (or_default q []);
          type' = trim (or_default ty []);
          limit = (case lq of None \<Rightarrow> 100 | Some n \<Rightarrow> n);
          offset = (case oq of None \<Rightarrow> 0 | Some n \<Rightarrow> n);
          rows = transactions st;
          rows = (if type' \<noteq> [] then filter (\<lambda>t. tx_type t = type') rows else rows);
          rows = (if q' \<noteq> [] then
                    (let pat = ''%'' @ q' @ ''%''
                     in filter (\<lambda>t. like pat (reference t) \<or> like pat (account t) \<or> like pat (date t)) rows)
                  else rows)
      in if must_be_int limit \<and> must_be_int offset
         then Inr (limit_offset limit offset (order_desc (\<lambda>t. (date t, tx_id t)) rows))
         else Inl Server_error)"

section \<open>\<^verbatim>\<open>POST\<close>, \<^verbatim>\<open>PUT\<close> and \<^verbatim>\<open>DELETE /api/transactions\<close>\<close>

text \<open>
  The request body. A text field is \<open>None\<close> when it is missing or \<^verbatim>\<open>null\<close>. The
  destructuring default \<^verbatim>\<open>debit = 0\<close> applies to a missing field only: a
  \<^verbatim>\<open>null\<close> is stored as \<^verbatim>\<open>NULL\<close>.
\<close>

datatype js_number = Omitted | Null | Num real

record body =
  body_date :: "string option"
  body_reference :: "string option"
  body_type :: "string option"
  body_account :: "string option"
  body_debit :: js_number
  body_credit :: js_number

definition falsy :: "string option \<Rightarrow> bool" where
  "falsy x = (case x of None \<Rightarrow> True | Some s \<Rightarrow> s = [])"

definition with_default :: "js_number \<Rightarrow> real \<Rightarrow> real option" where
  "with_default v d = (case v of Omitted \<Rightarrow> Some d | Null \<Rightarrow> None | Num x \<Rightarrow> Some x)"

text \<open>
  \<^verbatim>\<open>AUTOINCREMENT\<close>: the new id is one more than the largest id the table has ever
  held.
\<close>

definition next_id :: "store \<Rightarrow> int" where
  "next_id st = fold max (map tx_id (transactions st)) (seq st) + 1"

text \<open>\<^verbatim>\<open>SELECT * FROM transactions WHERE id = ?\<close> through \<^verbatim>\<open>db.get\<close>: the first
  row, if any. The parameter is \<open>None\<close> when \<^verbatim>\<open>parseInt\<close> gave \<^verbatim>\<open>NaN\<close>, which is
  bound as \<^verbatim>\<open>NULL\<close> and equals no id.\<close>

definition get_by_id :: "store \<Rightarrow> int option \<Rightarrow> transaction option" where
  "get_by_id st i = find (\<lambda>t. Some (tx_id t) = i) (transactions st)"

text \<open>
  Create. \<open>now\<close> is the value of \<^verbatim>\<open>datetime('now')\<close>, the default of
  \<^verbatim>\<open>created_at\<close>. The result is the response and the store after the request.
\<close>

definition create :: "string \<Rightarrow> store \<Rightarrow> body \<Rightarrow> (error + transaction option) \<times> store" where
  "create now st b =
     (if falsy (body_date b) \<or> falsy (body_reference b) \<or> falsy (body_type b) \<or> falsy (body_account b)
      then (Inl Bad_request, st)
      else
        (let lastID = next_id st;
             row = \<lparr> tx_id = lastID, date = the (body_date b), reference = the (body_reference b),
                     tx_type = the (body_type b), account = the (body_account b),
                     debit = with_default (body_debit b) 0, credit = with_default (body_credit b) 0,
                     created_at = Some now \<rparr>;
             st' = st \<lparr> transactions := transactions st @ [row], seq := lastID \<rparr>
         in (Inr (get_by_id st' (Some lastID)), st')))"

text \<open>Update: the response carries \<^verbatim>\<open>changes\<close> and the row read back.\<close>

definition update :: "store \<Rightarrow> int option \<Rightarrow> body \<Rightarrow> (error + nat \<times> transaction option) \<times> store" where
  "update st i b =
     (if falsy (body_date b) \<or> falsy (body_reference b) \<or> falsy (body_type b) \<or> falsy (body_account b)
      then (Inl Bad_request, st)
      else
        (let hit = (\<lambda>t. Some (tx_id t) = i);
             changes = length (filter hit (transactions st));
             st' = st \<lparr> transactions :=
                     map (\<lambda>t. if hit t
                               then t \<lparr> date := the (body_date b), reference := the (body_reference b),
                                       tx_type := the (body_type b), account := the (body_account b),
                                       debit := with_default (body_debit b) 0,
                                       credit := with_default (body_credit b) 0 \<rparr>
                               else t) (transactions st) \<rparr>
         in (Inr (changes, get_by_id st' i), st')))"

text \<open>Delete: the response carries \<^verbatim>\<open>changes\<close>.\<close>

definition delete :: "store \<Rightarrow> int option \<Rightarrow> (error + nat) \<times> store" where
  "delete st i =
     (let hit = (\<lambda>t. Some (tx_id t) = i);
          changes = length (filter hit (transactions st))
      in (Inr changes, st \<lparr> transactions := filter (\<lambda>t. \<not> hit t) (transactions st) \<rparr>))"

section \<open>\<^verbatim>\<open>GET /api/transactions/export\<close>\<close>







section \<open>Notions of the specification\<close>

text \<open>
  A \<^verbatim>\<open>NULL\<close> contributes nothing to a sum: it counts as \<open>0\<close>.
\<close>

definition num0 :: "('a::zero) option \<Rightarrow> 'a" where
  "num0 v = (case v of None \<Rightarrow> 0 | Some x \<Rightarrow> x)"

text \<open>
  The engine adds the amounts \<open>xs\<close> exactly: without rounding and without overflow.
\<close>

definition adds_exactly :: "env \<Rightarrow> real list \<Rightarrow> bool" where
  "adds_exactly e xs = (xs = [] \<or> real_sum e xs = Finite (sum_list xs))"

text \<open>
  The sum of the amounts \<open>xs\<close> as a statement with \<^verbatim>\<open>IFNULL(SUM(...),0)\<close> returns
  it: \<open>0\<close> for no amounts, else the engine's sum (\<open>0\<close> where that is no number).
\<close>

definition db_sum :: "env \<Rightarrow> real list \<Rightarrow> number" where
  "db_sum e xs = (if xs = [] then Finite 0 else number_or_zero (real_sum e xs))"

text \<open>The value of a finite number.\<close>

fun finite_value :: "number \<Rightarrow> real" where
  "finite_value (Finite x) = x"
| "finite_value a = 0"

text \<open>
  The key \<^verbatim>\<open>YYYY-MM\<close> of the calendar month with index \<open>k\<close>.
\<close>

definition month_key :: "int \<Rightarrow> string" where
  "month_key k = fixed 4 (nat (k div 12)) @ ''-'' @ fixed 2 (nat (k mod 12 + 1))"

text \<open>
  A calendar date as the ledger stores it: ten characters \<^verbatim>\<open>YYYY-MM-DD\<close>, the
  month from \<^verbatim>\<open>01\<close> to \<^verbatim>\<open>12\<close> and the day from \<^verbatim>\<open>01\<close> to
  \<^verbatim>\<open>31\<close>; a time of day may follow it.
\<close>

definition is_digit :: "char \<Rightarrow> bool" where
  "is_digit c = (CHR ''0'' \<le> c \<and> c \<le> CHR ''9'')"

definition iso_date :: "string \<Rightarrow> bool" where
  "iso_date d =
     (length d = 10 \<and> list_all is_digit (take 4 d)
      \<and> d ! 4 = CHR ''-'' \<and> list_all is_digit (take 2 (drop 5 d))
      \<and> d ! 7 = CHR ''-'' \<and> list_all is_digit (drop 8 d)
      \<and> ''01'' \<le> take 2 (drop 5 d) \<and> take 2 (drop 5 d) \<le> ''12''
      \<and> ''01'' \<le> drop 8 d \<and> drop 8 d \<le> ''31'')"

definition calendar_date :: "string \<Rightarrow> bool" where
  "calendar_date d = iso_date (take 10 d)"



section \<open>Auxiliary notions and example inputs\<close>

text \<open>
  The index of the current month as the bucket loop computes it, the text of a month as
  \<open>ym\<close> renders it, and the months, the revenue entries and the rows of a response
  (none when it is an error).
\<close>

definition cur :: "env \<Rightarrow> int" where
  "cur e = 12 * full_year (now_year e) + now_month e"

definition render :: "int \<Rightarrow> string" where
  "render u = take 7 (iso_year (u div 12) @ ''-'' @ fixed 2 (nat (u mod 12 + 1)))"

definition months_of :: "error + series_data \<Rightarrow> string list" where
  "months_of res = (case res of Inl err \<Rightarrow> [] | Inr r \<Rightarrow> months r)"

definition revenue_of :: "error + series_data \<Rightarrow> number list" where
  "revenue_of res = (case res of Inl err \<Rightarrow> [] | Inr r \<Rightarrow> series_revenue r)"

definition rows_of :: "error + 'a list \<Rightarrow> 'a list" where
  "rows_of res = (case res of Inl err \<Rightarrow> [] | Inr rows \<Rightarrow> rows)"

text \<open>
  The arithmetic of the examples, whose sums and differences are doubles or exceed every
  double: \<open>sample_double\<close> leaves a real in the range of the doubles as it is and
  gives an infinity beyond the largest double, \<open>max_double\<close>, which is
  \<open>(2 ^ 53 - 1) * 2 ^ 971\<close>; \<open>sample_sum\<close> does so with the sum of a list. A
  server on UTC and one two hours ahead of it, both in March 2024, with English month labels and this arithmetic; a small
  database; an inventory whose stock exceeds 64 bits, a ledger with a date that names
  a month only, and two sales of \<open>half_max\<close>, the double \<open>2 ^ 1023\<close>, whose sum
  exceeds every double; a ledger with a double quote and a comma in its text; a
  request body without \<^verbatim>\<open>debit\<close> and with \<^verbatim>\<open>credit\<close> \<^verbatim>\<open>null\<close>; and
  the text of the numbers that occur in these examples.
\<close>

definition en_label :: "string \<Rightarrow> string" where
  "en_label m =
     (case map_of [(''01'', ''Jan''), (''02'', ''Feb''), (''03'', ''Mar''), (''04'', ''Apr''),
                   (''05'', ''May''), (''06'', ''Jun''), (''07'', ''Jul''), (''08'', ''Aug''),
                   (''09'', ''Sep''), (''10'', ''Oct''), (''11'', ''Nov''), (''12'', ''Dec'')] (drop 5 m) of
        None \<Rightarrow> ''Invalid Date'' | Some l \<Rightarrow> l)"

definition max_double :: real where
  "max_double =
     179769313486231570814527423731704356798070567525844996598917476803157260780028538760589558632766878171540458953514382464234321326889464182768467546703537516986049910576551282076245490090389328944075868508455133942304583236903222948165808559332123348274797826204144723168738177180919299881250404026184124858368"

definition sample_double :: "real \<Rightarrow> number" where
  "sample_double x =
     (if max_double < x then Infinity else if x < - max_double then Minus_Infinity else Finite x)"

definition sample_sum :: "real list \<Rightarrow> number" where
  "sample_sum xs = sample_double (sum_list xs)"

definition env_utc :: env where
  "env_utc = \<lparr> now_year = 2024, now_month = 2, utc_year = 2024, utc_month = 2,
               local_offset = (\<lambda>k. 0), month_label = en_label,
               real_sum = sample_sum, to_double = sample_double \<rparr>"

definition env_east :: env where
  "env_east = \<lparr> now_year = 2024, now_month = 2, utc_year = 2024, utc_month = 2,
               local_offset = (\<lambda>k. 120), month_label = en_label,
               real_sum = sample_sum, to_double = sample_double \<rparr>"

definition ledger :: store where
  "ledger = \<lparr> transactions =
       [\<lparr> tx_id = 1, date = ''2024-01-05'', reference = ''INV-1'', tx_type = ''invoice'',
           account = ''Sales'', debit = Some (201 / 2), credit = Some 0,
           created_at = Some ''2024-01-05 10:00:00'' \<rparr>,
        \<lparr> tx_id = 2, date = ''2024-02-10'', reference = ''EXP-1'', tx_type = ''expense'',
           account = ''Rent'', debit = Some (161 / 4), credit = Some 0,
           created_at = Some ''2024-02-10 09:30:00'' \<rparr>,
        \<lparr> tx_id = 3, date = ''2024-01-15'', reference = ''INV-2'', tx_type = ''invoice'',
           account = ''Sales'', debit = Some 2, credit = None,
           created_at = Some ''2024-01-15 16:45:00'' \<rparr>],
     inventory =
       [\<lparr> item_id = 1, sku = ''A-1'', item_name = ''Anvil'', stock = Some 7,
           reorder_level = Some 2, status = Some ''ok'' \<rparr>,
        \<lparr> item_id = 2, sku = ''B-2'', item_name = ''Bolt'', stock = None,
           reorder_level = Some 50, status = Some ''low'' \<rparr>],
     categories =
       [\<lparr> cat_id = 1, name = ''Hardware'' \<rparr>, \<lparr> cat_id = 2, name = ''Software'' \<rparr>,
        \<lparr> cat_id = 3, name = ''Services'' \<rparr>],
     category_sales =
       [\<lparr> sale_id = 1, category_id = 1, month = ''2024-03'', amount = 10 \<rparr>,
        \<lparr> sale_id = 2, category_id = 2, month = ''2024-03'', amount = 25 \<rparr>,
        \<lparr> sale_id = 3, category_id = 1, month = ''2024-03'', amount = 5 \<rparr>,
        \<lparr> sale_id = 4, category_id = 2, month = ''2024-02'', amount = 90 \<rparr>,
        \<lparr> sale_id = 5, category_id = 9, month = ''2024-03'', amount = 1000 \<rparr>],
     seq = 3 \<rparr>"



definition month_ledger :: store where
  "month_ledger = \<lparr> transactions =
       [\<lparr> tx_id = 1, date = ''2024-03'', reference = ''INV-1'', tx_type = ''invoice'',
           account = ''Sales'', debit = Some 10, credit = Some 0, created_at = None \<rparr>,
        \<lparr> tx_id = 2, date = ''2024-03-01'', reference = ''INV-2'', tx_type = ''invoice'',
           account = ''Sales'', debit = Some 5, credit = Some 0, created_at = None \<rparr>],
     inventory = [], categories = [], category_sales = [], seq = 2 \<rparr>"

definition half_max :: real where
  "half_max =
     89884656743115795386465259539451236680898848947115328636715040578866337902750481566354238661203768010560056939935696678829394884407208311246423715319737062188883946712432742638151109800623047059726541476042502884419075341171231440736956555270413618581675255342293149119973622969239858152417678164812112068608"

definition big_sales :: store where
  "big_sales = \<lparr> transactions = [], inventory = [],
     categories = [\<lparr> cat_id = 1, name = ''Hardware'' \<rparr>],
     category_sales =
       [\<lparr> sale_id = 1, category_id = 1, month = ''2024-03'', amount = half_max \<rparr>,
        \<lparr> sale_id = 2, category_id = 1, month = ''2024-03'', amount = half_max \<rparr>],
     seq = 0 \<rparr>"

definition sample_body :: body where
  "sample_body = \<lparr> body_date = Some ''2024-03-01'', body_reference = Some ''INV-3'',
       body_type = Some ''invoice'', body_account = Some ''Sales'',
       body_debit = Omitted, body_credit = Null \<rparr>"


section \<open>Properties\<close>

subsection \<open>Totals\<close>

lemma sum_list_non_null: "sum_list (non_null vs) = (\<Sum>v\<leftarrow>vs. num0 v)"
  by (induction vs rule: non_null.induct) (simp_all add: num0_def)

lemma number_or_zero_Finite [simp]: "number_or_zero (Finite x) = Finite x"
  by (simp add: number_or_zero_def falsy_number_def)

lemma ifnull_sql_sum_real: "ifnull (sql_sum_real e vs) (Finite 0) = db_sum e (non_null vs)"
  by (cases "non_null vs"; cases "real_sum e (non_null vs)")
    (simp_all add: ifnull_def sql_sum_real_def db_sum_def number_or_zero_def falsy_number_def)

lemma number_or_zero_db_sum [simp]: "number_or_zero (db_sum e xs) = db_sum e xs"
  by (simp add: db_sum_def number_or_zero_def falsy_number_def)

lemma db_sum_exact: "adds_exactly e xs \<Longrightarrow> db_sum e xs = Finite (sum_list xs)"
  by (auto simp add: adds_exactly_def db_sum_def)









subsection \<open>Month keys\<close>

lemma fixed_length [simp]: "length (fixed w n) = w"
  by (induction w arbitrary: n) simp_all

lemma digit_less: "a < b \<Longrightarrow> b < 10 \<Longrightarrow> digit a < digit b"
  by (simp add: digit_def less_char_def)

lemma append_less_same_length:
  "length xs = length ys \<Longrightarrow> xs < ys \<Longrightarrow> xs @ as < ys @ bs"
  by (induction xs ys rule: list_induct2) auto

lemma append_less_cancel [simp]: "xs @ ys < xs @ zs \<longleftrightarrow> ys < (zs :: 'a::linorder list)"
  by (induction xs) auto

lemma append_le_cancel [simp]: "xs @ ys \<le> xs @ zs \<longleftrightarrow> ys \<le> (zs :: 'a::linorder list)"
  by (induction xs) auto

lemma take_le: "take n xs \<le> (xs :: 'a::linorder list)"
proof (induction xs arbitrary: n)
  case Nil
  then show ?case by simp
next
  case (Cons x xs)
  then show ?case by (cases n) simp_all
qed

lemma fixed_mono_strict: "n < m \<Longrightarrow> m < 10 ^ w \<Longrightarrow> fixed w n < fixed w m"
proof (induction w arbitrary: n m)
  case 0
  then show ?case by simp
next
  case (Suc w)
  have le: "n div 10 \<le> m div 10" using Suc.prems(1) by (simp add: div_le_mono)
  show ?case
  proof (cases "n div 10 < m div 10")
    case True
    have "m div 10 < 10 ^ w" using Suc.prems(2) by simp
    then have "fixed w (n div 10) < fixed w (m div 10)" using Suc.IH True by blast
    then show ?thesis by (simp add: append_less_same_length)
  next
    case False
    then have eq: "n div 10 = m div 10" using le by simp
    have "n = 10 * (n div 10) + n mod 10" "m = 10 * (m div 10) + m mod 10" by simp_all
    then have "n mod 10 < m mod 10" using Suc.prems(1) eq by linarith
    then have "digit (n mod 10) < digit (m mod 10)" by (simp add: digit_less)
    then show ?thesis using eq by simp
  qed
qed

lemma month_key_length [simp]: "length (month_key k) = 7"
  by (simp add: month_key_def)

lemma month_key_mono:
  assumes "0 \<le> a" "a < b" "b \<le> 119999"
  shows "month_key a < month_key b"
proof -
  have ydiv: "a div 12 \<le> b div 12" using assms(2) by (simp add: zdiv_mono1)
  have yb: "b div 12 \<le> 9999" using assms(3) by linarith
  have ya: "0 \<le> a div 12" using assms(1) by simp
  show ?thesis
  proof (cases "a div 12 < b div 12")
    case True
    then have "nat (a div 12) < nat (b div 12)" using ya by linarith
    moreover have "nat (b div 12) < 10 ^ 4" using yb by simp
    ultimately have "fixed 4 (nat (a div 12)) < fixed 4 (nat (b div 12))"
      by (rule fixed_mono_strict)
    then show ?thesis
      unfolding month_key_def by (intro append_less_same_length) simp_all
  next
    case False
    then have eq: "a div 12 = b div 12" using ydiv by simp
    have "a = 12 * (a div 12) + a mod 12" "b = 12 * (b div 12) + b mod 12" by simp_all
    then have "a mod 12 < b mod 12" using assms(2) eq by linarith
    then have "nat (a mod 12 + 1) < nat (b mod 12 + 1)" by simp
    moreover have "nat (b mod 12 + 1) < 10 ^ 2" by simp
    ultimately have "fixed 2 (nat (a mod 12 + 1)) < fixed 2 (nat (b mod 12 + 1))"
      by (rule fixed_mono_strict)
    then show ?thesis
      unfolding month_key_def eq by simp
  qed
qed

lemma days_from_civil_bound:
  assumes "- 10000 \<le> y" "y \<le> 10000" "1 \<le> m" "m \<le> 12"
  shows "\<bar>days_from_civil y m 1\<bar> \<le> 5000000"
proof -
  define y' where "y' = (if m \<le> 2 then y - 1 else y)"
  define era where "era = y' div 400"
  define yoe where "yoe = y' - era * 400"
  define mp where "mp = (if 2 < m then m - 3 else m + 9)"
  define doy where "doy = (153 * mp + 2) div 5"
  have y'b: "- 10001 \<le> y'" "y' \<le> 10000" using assms by (auto simp: y'_def)
  have erab: "- 26 \<le> era" "era \<le> 25" using y'b unfolding era_def by linarith+
  have yoeb: "0 \<le> yoe" "yoe \<le> 399" unfolding yoe_def era_def
    by (simp_all add: minus_div_mult_eq_mod)
  have mpb: "0 \<le> mp" "mp \<le> 11" using assms by (auto simp: mp_def)
  have doyb: "0 \<le> doy" "doy \<le> 337" using mpb unfolding doy_def by linarith+
  have q4: "0 \<le> yoe div 4" "yoe div 4 \<le> 99" using yoeb by linarith+
  have q100: "0 \<le> yoe div 100" "yoe div 100 \<le> 3" using yoeb by linarith+
  have "days_from_civil y m 1 = era * 146097 + (yoe * 365 + yoe div 4 - yoe div 100 + doy) - 719468"
    by (simp add: days_from_civil_def Let_def y'_def era_def yoe_def mp_def doy_def)
  then show ?thesis using erab yoeb doyb q4 q100 by linarith
qed

lemma utc_day_before: "(d * 1440 - off) div 1440 < d \<longleftrightarrow> 0 < (off :: int)"
proof -
  have "(d * 1440 - off) div 1440 = d + (- off) div 1440"
    using div_mult_self2 [of 1440 "- off" d] by (simp add: algebra_simps)
  then show ?thesis by linarith
qed

lemma ym_valid:
  assumes "- 120000 \<le> k" "k \<le> 120011" "\<bar>local_offset e k\<bar> \<le> 1440"
  shows "ym e k = Some (take 7 (iso_year ((if 0 < local_offset e k then k - 1 else k) div 12) @ ''-''
            @ fixed 2 (nat ((if 0 < local_offset e k then k - 1 else k) mod 12 + 1))))"
proof -
  have "- 10000 \<le> k div 12" "k div 12 \<le> 10000" using assms by linarith+
  moreover have "1 \<le> k mod 12 + 1" "k mod 12 + 1 \<le> 12" by simp_all
  ultimately have "\<bar>days_from_civil (k div 12) (k mod 12 + 1) 1\<bar> \<le> 5000000"
    by (rule days_from_civil_bound)
  then have "\<not> 144000000000 < \<bar>first_day k * 1440 - local_offset e k\<bar>"
    using assms(3) unfolding first_day_def by linarith
  then show ?thesis by (simp add: ym_def Let_def utc_day_before)
qed

lemma ym_in_range:
  assumes "0 \<le> k" "k \<le> 119999" "- 1440 < local_offset e k" "local_offset e k \<le> 0"
  shows "ym e k = Some (month_key k)"
proof -
  have "- 120000 \<le> k" "k \<le> 120011" "\<bar>local_offset e k\<bar> \<le> 1440" using assms by linarith+
  note v = ym_valid [OF this]
  have y: "0 \<le> k div 12" "k div 12 \<le> 9999" using assms by linarith+
  show ?thesis using v assms(4) y by (simp add: iso_year_def month_key_def)
qed

lemma ym_render:
  "ym e k = Some s \<Longrightarrow> s = render (if 0 < local_offset e k then k - 1 else k)"
  by (auto simp add: ym_def render_def Let_def utc_day_before split: if_splits)

lemma render_cases:
  "(render u = month_key u \<and> 0 \<le> u \<and> u \<le> 119999)
   \<or> (\<exists>cs. render u = CHR ''-'' # cs \<and> u < 0)
   \<or> (\<exists>cs. render u = CHR ''+'' # cs \<and> 119999 < u)"
proof -
  consider "u div 12 < 0" | "0 \<le> u div 12 \<and> u div 12 \<le> 9999" | "9999 < u div 12" by linarith
  then show ?thesis
  proof cases
    case 1
    then have "u < 0" by linarith
    then show ?thesis using 1 by (simp add: render_def iso_year_def)
  next
    case 2
    then have "0 \<le> u" "u \<le> 119999" by linarith+
    then show ?thesis using 2 by (simp add: render_def iso_year_def month_key_def)
  next
    case 3
    then have "119999 < u" by linarith
    then show ?thesis using 3 by (simp add: render_def iso_year_def)
  qed
qed

subsection \<open>The bucket loop\<close>

lemma months_loop_result:
  "months_loop e i ms = Inr r \<Longrightarrow>
     r = ms @ map (\<lambda>j. the (ym e (cur e - i + int j))) [0..<nat (i + 1)]
     \<and> (\<forall>j<nat (i + 1). ym e (cur e - i + int j) \<noteq> None)"
proof (induction e i ms arbitrary: r rule: months_loop.induct)
  case (1 e i ms)
  show ?case
  proof (cases "0 \<le> i")
    case False
    then show ?thesis using "1.prems" by (simp add: months_loop.simps [of e i ms])
  next
    case True
    from "1.prems" True obtain s
      where s': "ym e (12 * full_year (now_year e) + (now_month e - i)) = Some s"
      and rec: "months_loop e (i - 1) (ms @ [s]) = Inr r"
      by (auto simp add: months_loop.simps [of e i ms] split: option.splits)
    have idx: "12 * full_year (now_year e) + (now_month e - i) = cur e - i"
      by (simp add: cur_def)
    from s' have s: "ym e (cur e - i) = Some s" by (simp only: idx)
    have ih: "r = (ms @ [s]) @ map (\<lambda>j. the (ym e (cur e - (i - 1) + int j))) [0..<nat (i - 1 + 1)]
        \<and> (\<forall>j<nat (i - 1 + 1). ym e (cur e - (i - 1) + int j) \<noteq> None)"
      using "1.IH" [OF True s' rec] .
    have nat_eq: "nat (i + 1) = Suc (nat i)" using True by simp
    have shift: "\<And>j. cur e - (i - 1) + int j = cur e - i + int (Suc j)" by simp
    have "map (\<lambda>j. the (ym e (cur e - i + int j))) [0..<nat (i + 1)]
        = s # map (\<lambda>j. the (ym e (cur e - (i - 1) + int j))) [0..<nat i]"
      unfolding nat_eq upt_conv_Cons [OF zero_less_Suc] map_Suc_upt [symmetric]
      by (simp add: s shift comp_def)
    moreover have "\<forall>j<nat (i + 1). ym e (cur e - i + int j) \<noteq> None"
    proof (intro allI impI)
      fix j assume j: "j < nat (i + 1)"
      show "ym e (cur e - i + int j) \<noteq> None"
      proof (cases j)
        case 0
        then show ?thesis using s by simp
      next
        case (Suc j')
        then have "j' < nat (i - 1 + 1)" using j True by simp
        then have "ym e (cur e - (i - 1) + int j') \<noteq> None" using ih by blast
        then show ?thesis using Suc by (simp add: shift)
      qed
    qed
    ultimately show ?thesis using ih by simp
  qed
qed

lemma months_loop_success:
  "(\<forall>j<nat (i + 1). ym e (cur e - i + int j) \<noteq> None) \<Longrightarrow> \<exists>r. months_loop e i ms = Inr r"
proof (induction e i ms rule: months_loop.induct)
  case (1 e i ms)
  show ?case
  proof (cases "0 \<le> i")
    case False
    then show ?thesis by (simp add: months_loop.simps [of e i ms])
  next
    case True
    have "0 < nat (i + 1)" using True by simp
    then have "ym e (cur e - i + int 0) \<noteq> None" using "1.prems" by blast
    then obtain s where s: "ym e (cur e - i) = Some s" by auto
    have idx: "12 * full_year (now_year e) + (now_month e - i) = cur e - i"
      by (simp add: cur_def)
    from s have s': "ym e (12 * full_year (now_year e) + (now_month e - i)) = Some s"
      by (simp only: idx)
    have "\<forall>j<nat (i - 1 + 1). ym e (cur e - (i - 1) + int j) \<noteq> None"
    proof (intro allI impI)
      fix j assume "j < nat (i - 1 + 1)"
      then have "Suc j < nat (i + 1)" using True by simp
      then have "ym e (cur e - i + int (Suc j)) \<noteq> None" using "1.prems" by blast
      then show "ym e (cur e - (i - 1) + int j) \<noteq> None" by (simp add: algebra_simps)
    qed
    then obtain r where "months_loop e (i - 1) (ms @ [s]) = Inr r"
      using "1.IH" [OF True s'] by blast
    then show ?thesis using True s' by (simp add: months_loop.simps [of e i ms])
  qed
qed

lemma months_loop_neg: "i < 0 \<Longrightarrow> months_loop e i ms = Inr ms"
  by (simp add: months_loop.simps [of e i ms])

text \<open>
  C2, as the code has it. Let the server's clock show a year from 100 to 9999 and its
  local time be not ahead of UTC. For every positive \<open>monthsCount\<close> (\<open>6\<close> when the
  parameter is absent) that does not reach back before year \<open>0000\<close>, the revenue time
  series succeeds and returns four arrays of length \<open>monthsCount\<close>; \<open>months\<close> holds
  the keys \<^verbatim>\<open>YYYY-MM\<close> of \<open>monthsCount\<close> consecutive calendar months, oldest first,
  the last one being the current month.
\<close>

theorem revenue_series_months:
  assumes n: "n = (case q of None \<Rightarrow> 6 | Some k \<Rightarrow> k)" "0 < n"
    and year: "100 \<le> now_year e" "now_year e \<le> 9999"
    and mon: "0 \<le> now_month e" "now_month e \<le> 11"
    and window: "n \<le> 12 * now_year e + now_month e + 1"
    and zone: "\<forall>k. - 1440 < local_offset e k \<and> local_offset e k \<le> 0"
  shows "\<exists>r. revenue_series e st q = Inr r
     \<and> length (labels r) = nat n \<and> length (months r) = nat n
     \<and> length (series_revenue r) = nat n \<and> length (series_expenses r) = nat n
     \<and> months r = map (\<lambda>j. month_key (12 * now_year e + now_month e - (n - 1) + int j)) [0..<nat n]
     \<and> last (months r) = month_key (12 * now_year e + now_month e)"
proof -
  have c: "cur e = 12 * now_year e + now_month e"
    using year by (simp add: cur_def full_year_def)
  have key: "ym e (cur e - (n - 1) + int j) = Some (month_key (cur e - (n - 1) + int j))"
    if "j < nat n" for j
  proof -
    have "0 \<le> cur e - (n - 1) + int j" using window c by linarith
    moreover have "cur e - (n - 1) + int j \<le> 119999" using that year mon c by linarith
    ultimately show ?thesis using zone by (intro ym_in_range) auto
  qed
  have nn: "nat (n - 1 + 1) = nat n" by simp
  have "\<forall>j<nat (n - 1 + 1). ym e (cur e - (n - 1) + int j) \<noteq> None"
    using key by (simp add: nn)
  then obtain ms where ms: "months_loop e (n - 1) [] = Inr ms"
    using months_loop_success by blast
  from months_loop_result [OF ms]
  have "ms = map (\<lambda>j. the (ym e (cur e - (n - 1) + int j))) [0..<nat n]"
    by (simp add: nn)
  also have "\<dots> = map (\<lambda>j. month_key (cur e - (n - 1) + int j)) [0..<nat n]"
    using key by simp
  finally have eq: "ms = map (\<lambda>j. month_key (12 * now_year e + now_month e - (n - 1) + int j)) [0..<nat n]"
    by (simp add: c)
  have len: "length ms = nat n" by (simp add: eq)
  have "nat n = Suc (nat (n - 1))" using n(2) by simp
  then have "[0..<nat n] = [0..<nat (n - 1)] @ [nat (n - 1)]" by simp
  then have lst: "last ms = month_key (12 * now_year e + now_month e)"
    using n(2) by (simp add: eq)
  show ?thesis
    using ms eq len lst n(1) by (simp add: revenue_series_def Let_def)
qed

theorem revenue_series_months_witness:
  "\<exists>r. revenue_series env_utc ledger None = Inr r
     \<and> length (labels r) = 6 \<and> length (series_revenue r) = 6 \<and> length (series_expenses r) = 6
     \<and> months r = [''2023-10'', ''2023-11'', ''2023-12'', ''2024-01'', ''2024-02'', ''2024-03'']"
proof -
  have u: "[0..<nat 6] = [0, 1, 2, 3, 4, 5]" by (simp add: upt_rec)
  have k: "map (\<lambda>j. month_key (12 * now_year env_utc + now_month env_utc - (6 - 1) + int j)) [0..<nat 6]
      = [''2023-10'', ''2023-11'', ''2023-12'', ''2024-01'', ''2024-02'', ''2024-03'']"
    unfolding u list.map by code_simp
  have "\<exists>r. revenue_series env_utc ledger None = Inr r
     \<and> length (labels r) = nat 6 \<and> length (months r) = nat 6
     \<and> length (series_revenue r) = nat 6 \<and> length (series_expenses r) = nat 6
     \<and> months r = map (\<lambda>j. month_key (12 * now_year env_utc + now_month env_utc - (6 - 1) + int j)) [0..<nat 6]
     \<and> last (months r) = month_key (12 * now_year env_utc + now_month env_utc)"
    by (rule revenue_series_months [of 6 None env_utc ledger]) (simp_all add: env_utc_def)
  then show ?thesis unfolding k by auto
qed

text \<open>
  C2 as stated fails for a window that reaches back before year \<open>0000\<close>: with
  \<^verbatim>\<open>months=24303\<close> in March 2024 the two oldest buckets are January and February of
  the year before year \<open>0000\<close>, and both carry the key \<^verbatim>\<open>-000001\<close>, the first seven
  characters of an expanded year.
\<close>

theorem revenue_series_months_counterexample:
  "take 2 (months_of (revenue_series env_utc ledger (Some 24303))) = [''-000001'', ''-000001'']"
proof -
  have c: "cur env_utc = 24290" by (simp add: cur_def env_utc_def full_year_def)
  have "ym env_utc (cur env_utc - 24302 + int j) \<noteq> None" if "j < 24303" for j
  proof -
    have "- 120000 \<le> cur env_utc - 24302 + int j" "cur env_utc - 24302 + int j \<le> 120011"
      using that c by simp_all
    moreover have "\<bar>local_offset env_utc (cur env_utc - 24302 + int j)\<bar> \<le> 1440"
      by (simp add: env_utc_def)
    ultimately show ?thesis using ym_valid by simp
  qed
  then have "\<forall>j<nat (24302 + 1). ym env_utc (cur env_utc - 24302 + int j) \<noteq> None" by simp
  then obtain ms where ms: "months_loop env_utc 24302 [] = Inr ms"
    using months_loop_success by blast
  from months_loop_result [OF ms]
  have eq: "ms = map (\<lambda>j. the (ym env_utc (cur env_utc - 24302 + int j))) [0..<24303]" by simp
  have "take 2 [0..<24303::nat] = [0..<0 + 2]" by (rule take_upt) simp
  also have "\<dots> = [0, 1]" by (simp add: upt_rec)
  finally have "take 2 ms = [the (ym env_utc (- 12)), the (ym env_utc (- 11))]"
    by (simp add: eq c take_map)
  also have "\<dots> = [''-000001'', ''-000001'']" by code_simp
  finally show ?thesis using ms by (simp add: months_of_def revenue_series_def Let_def)
qed

text \<open>
  On a server ahead of UTC every key is one month early, since local midnight of the
  first of a month is still the last day of the month before in UTC: the three buckets
  asked for in March 2024 end in February.
\<close>

lemma revenue_series_east:
  "months_of (revenue_series env_east ledger (Some 3)) = [''2023-12'', ''2024-01'', ''2024-02'']"
  by code_simp

lemma calendar_date_hd: "calendar_date d \<Longrightarrow> \<exists>c cs. d = c # cs \<and> is_digit c"
  by (cases d) (auto simp add: calendar_date_def iso_date_def)

text \<open>
  C9. For every \<open>monthsCount \<le> 0\<close> the revenue time series succeeds with four empty
  arrays: the bucket loop does not run. The lower bound of the two queries is then the
  text \<^verbatim>\<open>undefined-01\<close>, which no calendar date reaches, so the queries select no
  transaction of a ledger of calendar dates.
\<close>

theorem revenue_series_nonpositive:
  assumes "n \<le> 0"
  shows "revenue_series e st (Some n)
           = Inr \<lparr> labels = [], months = [], series_revenue = [], series_expenses = [] \<rparr>
      \<and> ((\<forall>t\<in>set (transactions st). calendar_date (date t))
           \<longrightarrow> series_rows e ty (lower_bound []) (transactions st) = [])"
proof -
  have "months_loop e (n - 1) [] = Inr []" using assms by (simp add: months_loop_neg)
  then have a: "revenue_series e st (Some n)
           = Inr \<lparr> labels = [], months = [], series_revenue = [], series_expenses = [] \<rparr>"
    by (simp add: revenue_series_def)
  have "\<not> ''undefined-01'' \<le> d" if "calendar_date d" for d
  proof -
    from calendar_date_hd [OF that] obtain c cs where d: "d = c # cs" and c: "is_digit c" by blast
    from c have "c < CHR ''u''" by (simp add: is_digit_def less_eq_char_def less_char_def)
    then show ?thesis using d by auto
  qed
  then have b: "(\<forall>t\<in>set (transactions st). calendar_date (date t))
           \<longrightarrow> series_rows e ty (lower_bound []) (transactions st) = []"
    by (auto simp add: series_rows_def lower_bound_def filter_empty_conv)
  show ?thesis using a b by blast
qed

theorem revenue_series_nonpositive_witness:
  "revenue_series env_utc ledger (Some 0)
     = Inr \<lparr> labels = [], months = [], series_revenue = [], series_expenses = [] \<rparr>
   \<and> series_rows env_utc ''invoice'' (lower_bound []) (transactions ledger) = []"
proof -
  have "\<forall>t\<in>set (transactions ledger). calendar_date (date t)"
    by (simp add: ledger_def calendar_date_def iso_date_def is_digit_def)
  then show ?thesis using revenue_series_nonpositive [of 0 env_utc ledger "''invoice''"] by simp
qed

subsection \<open>Buckets\<close>

lemma calendar_date_tail: "calendar_date d \<Longrightarrow> ''-01'' \<le> drop 7 d"
proof -
  assume d: "calendar_date d"
  let ?p = "take 10 d"
  from d have p: "iso_date ?p" by (simp add: calendar_date_def)
  then have "7 < length ?p" by (simp add: iso_date_def)
  then have "drop 7 ?p = ?p ! 7 # drop 8 ?p" using Cons_nth_drop_Suc [of 7 ?p] by simp
  then have "''-01'' \<le> drop 7 ?p" using p by (simp add: iso_date_def)
  moreover have "drop 7 ?p = take 3 (drop 7 d)" by (simp add: drop_take)
  ultimately have "''-01'' \<le> take 3 (drop 7 d)" by simp
  also have "\<dots> \<le> drop 7 d" by (rule take_le)
  finally show ?thesis .
qed

lemma render_le:
  assumes le: "u0 \<le> u" and d: "calendar_date d" and pre: "take 7 d = render u"
  shows "render u0 @ ''-01'' \<le> d"
proof -
  from calendar_date_hd [OF d] obtain c cs where dc: "d = c # cs" and c: "is_digit c" by blast
  have cm: "CHR ''-'' < c" and cp: "c \<noteq> CHR ''+''" and cn: "c \<noteq> CHR ''-''"
    using c by (auto simp add: is_digit_def less_eq_char_def less_char_def)
  have hd: "\<exists>xs. render u = c # xs" using pre dc by (metis take_Suc_Cons numeral_eq_Suc pred_numeral_simps(2))
  from render_cases [of u] hd cp cn have u: "render u = month_key u" "0 \<le> u" "u \<le> 119999"
    by auto
  from render_cases [of u0] consider
      (key) "render u0 = month_key u0" "0 \<le> u0"
    | (neg) cs' where "render u0 = CHR ''-'' # cs'"
    using le u(3) by fastforce
  then show ?thesis
  proof cases
    case neg
    then show ?thesis using cm dc by simp
  next
    case key
    have split: "d = month_key u @ drop 7 d" using pre u(1) by (metis append_take_drop_id)
    show ?thesis
    proof (cases "u0 < u")
      case True
      then have "month_key u0 < month_key u" using key(2) u(3) by (intro month_key_mono)
      then have "month_key u0 @ ''-01'' < month_key u @ drop 7 d"
        by (intro append_less_same_length) simp_all
      then show ?thesis using split key(1) by simp
    next
      case False
      then have "u0 = u" using le by simp
      then have "render u0 @ ''-01'' \<le> month_key u @ drop 7 d"
        using calendar_date_tail [OF d] u(1) by simp
      then show ?thesis using split by simp
    qed
  qed
qed

lemma lower_bound_redundant:
  assumes ms: "months_loop e i [] = Inr ms" and j: "j < length ms"
    and d: "calendar_date d" and pre: "take 7 d = ms ! j"
  shows "lower_bound ms \<le> d"
proof -
  let ?k = "\<lambda>j. cur e - i + int j"
  let ?u = "\<lambda>k. if 0 < local_offset e k then k - 1 else k"
  from months_loop_result [OF ms]
  have eq: "ms = map (\<lambda>j. the (ym e (?k j))) [0..<nat (i + 1)]"
    and ok: "\<forall>j<nat (i + 1). ym e (?k j) \<noteq> None" by simp_all
  have len: "length ms = nat (i + 1)" using eq by simp
  have j': "j < nat (i + 1)" and z: "0 < nat (i + 1)" using j len by simp_all
  have r: "ms ! n = render (?u (?k n))" if "n < nat (i + 1)" for n
  proof -
    from ok that obtain s where s: "ym e (?k n) = Some s" by auto
    have "ms ! n = the (ym e (?k n))" using that by (subst eq) simp
    then show ?thesis using ym_render [OF s] s by simp
  qed
  have "ms \<noteq> []" using j by auto
  then have lb: "lower_bound ms = ms ! 0 @ ''-01''"
    by (cases ms) (simp_all add: lower_bound_def)
  have "?u (?k 0) \<le> ?u (?k j)" by (cases j) (auto)
  then have "render (?u (?k 0)) @ ''-01'' \<le> d"
    using d pre r [OF j'] by (intro render_le) simp_all
  then show ?thesis using lb r [OF z] by simp
qed

lemma fold_upd_map_of:
  "fold (\<lambda>r m. m(fst r \<mapsto> snd r)) rows m0 = m0 ++ map_of (rev rows)"
  by (induction rows arbitrary: m0) (simp_all add: map_add_upd_left fun_upd_def map_add_def fun_eq_iff split: option.splits)

lemma to_map_keys:
  "distinct ks \<Longrightarrow> to_map (map (\<lambda>k. (k, g k)) ks) m = (if m \<in> set ks then Some (g m) else None)"
proof -
  assume "distinct ks"
  have "to_map (map (\<lambda>k. (k, g k)) ks) = map_of (map (\<lambda>k. (k, g k)) (rev ks))"
    by (simp add: to_map_def fold_upd_map_of rev_map)
  also have "\<dots> = (Some \<circ> g) |` set (rev ks)" by (rule map_of_map_restrict)
  finally show ?thesis by (simp add: restrict_map_def)
qed

lemma Math_round_0 [simp]: "Math_round (Finite 0) = Finite 0"
  by simp

lemma bucket_value:
  "(if falsy_number a then Finite 0 else Math_round a) = number_or_zero (Math_round a)"
  by (cases a) (auto simp add: falsy_number_def number_or_zero_def)

lemma Math_round_db_sum_exact:
  "adds_exactly e xs \<Longrightarrow>
     number_or_zero (Math_round (db_sum e xs)) = Finite (of_int \<lfloor>sum_list xs + 1 / 2\<rfloor>)"
  by (simp add: db_sum_exact)

lemma bucket_series_rows:
  "bucket (to_map (series_rows e ty lb txs)) m =
     number_or_zero (Math_round (db_sum e (non_null (map debit
       (filter (\<lambda>t. tx_type t = ty \<and> lb \<le> date t \<and> take 7 (date t) = m) txs)))))"
proof -
  define sel where "sel = filter (\<lambda>t. tx_type t = ty \<and> lb \<le> date t) txs"
  define g where "g = (\<lambda>k. db_sum e (non_null (map debit (filter (\<lambda>t. take 7 (date t) = k) sel))))"
  have rows: "series_rows e ty lb txs = map (\<lambda>k. (k, g k)) (remdups (map (\<lambda>t. take 7 (date t)) sel))"
    by (simp add: series_rows_def sel_def g_def ifnull_sql_sum_real)
  have f: "filter (\<lambda>t. take 7 (date t) = m) sel
      = filter (\<lambda>t. tx_type t = ty \<and> lb \<le> date t \<and> take 7 (date t) = m) txs"
    by (auto simp add: sel_def intro: filter_cong)
  have gm: "g m = db_sum e (non_null (map debit
       (filter (\<lambda>t. tx_type t = ty \<and> lb \<le> date t \<and> take 7 (date t) = m) txs)))"
    by (simp add: g_def f)
  have look: "to_map (series_rows e ty lb txs) m
      = (if m \<in> (\<lambda>t. take 7 (date t)) ` set sel then Some (g m) else None)"
    unfolding rows by (subst to_map_keys) simp_all
  show ?thesis
  proof (cases "m \<in> (\<lambda>t. take 7 (date t)) ` set sel")
    case True
    then show ?thesis using look gm by (simp add: bucket_def bucket_value)
  next
    case False
    then have "filter (\<lambda>t. take 7 (date t) = m) sel = []"
      by (auto simp add: filter_empty_conv)
    then have "g m = Finite 0" by (simp add: g_def db_sum_def)
    then show ?thesis using look gm False by (simp add: bucket_def)
  qed
qed

lemma bucket_absent:
  "m \<notin> fst ` set rows \<Longrightarrow> bucket (to_map rows) m = Finite 0"
proof -
  assume "m \<notin> fst ` set rows"
  then have "map_of (rev rows) m = None" by (simp add: map_of_eq_None_iff)
  then show ?thesis by (simp add: bucket_def to_map_def fold_upd_map_of)
qed

lemma series_rows_distinct: "distinct (map fst (series_rows e ty lb txs))"
  by (simp add: series_rows_def comp_def)

lemma bucket_zero:
  "(m, Finite 0) \<in> set (series_rows e ty lb txs)
     \<Longrightarrow> bucket (to_map (series_rows e ty lb txs)) m = Finite 0"
proof -
  assume a: "(m, Finite 0) \<in> set (series_rows e ty lb txs)"
  have "distinct (map fst (rev (series_rows e ty lb txs)))"
    using series_rows_distinct [of e ty lb txs] by (simp add: rev_map [symmetric])
  moreover have "(m, Finite 0) \<in> set (rev (series_rows e ty lb txs))" using a by simp
  ultimately have "map_of (rev (series_rows e ty lb txs)) m = Some (Finite 0)"
    by (rule map_of_is_SomeI)
  then show ?thesis by (simp add: bucket_def to_map_def fold_upd_map_of falsy_number_def)
qed

lemma lower_bound_admits:
  assumes iso: "\<forall>t\<in>set txs. calendar_date (date t)"
    and ms: "months_loop e i [] = Inr ms" and j: "j < length ms"
  shows "filter (\<lambda>t. tx_type t = ty \<and> lower_bound ms \<le> date t \<and> take 7 (date t) = ms ! j) txs
      = filter (\<lambda>t. tx_type t = ty \<and> take 7 (date t) = ms ! j) txs"
  using iso lower_bound_redundant [OF ms j] by (intro filter_cong) auto

text \<open>
  C3, as the code has it. For every bucket month \<open>m\<close> of a revenue time series, take
  the transactions of type \<^verbatim>\<open>invoice\<close> whose date begins with \<open>m\<close> and is not below
  the lower bound of the query, the first day of the oldest bucket month written as
  text. The revenue entry is what the database returns as the sum of their \<open>debit\<close>,
  rounded by \<^verbatim>\<open>Math.round\<close>: whenever the engine adds these amounts exactly, it is the
  sum rounded to the nearest integer, a half upwards. The expenses entry is the same for
  type \<^verbatim>\<open>expense\<close>. Without such a transaction the entry is \<open>0\<close>; a month absent
  from the grouped rows yields \<open>0\<close>, and so does a month whose row has the sum
  \<open>0\<close>. On a ledger of calendar dates the lower bound excludes no transaction of a
  bucket month.
\<close>

theorem revenue_series_buckets:
  assumes r: "revenue_series e st q = Inr r" and j: "j < length (months r)"
    and rs: "rs = filter (\<lambda>t. tx_type t = ''invoice'' \<and> lower_bound (months r) \<le> date t
                              \<and> take 7 (date t) = months r ! j) (transactions st)"
    and es: "es = filter (\<lambda>t. tx_type t = ''expense'' \<and> lower_bound (months r) \<le> date t
                              \<and> take 7 (date t) = months r ! j) (transactions st)"
  shows "series_revenue r ! j = number_or_zero (Math_round (db_sum e (non_null (map debit rs))))
    \<and> series_expenses r ! j = number_or_zero (Math_round (db_sum e (non_null (map debit es))))
    \<and> (adds_exactly e (non_null (map debit rs)) \<longrightarrow>
          series_revenue r ! j = Finite (of_int \<lfloor>(\<Sum>t\<leftarrow>rs. num0 (debit t)) + 1 / 2\<rfloor>))
    \<and> (adds_exactly e (non_null (map debit es)) \<longrightarrow>
          series_expenses r ! j = Finite (of_int \<lfloor>(\<Sum>t\<leftarrow>es. num0 (debit t)) + 1 / 2\<rfloor>))
    \<and> (rs = [] \<longrightarrow> series_revenue r ! j = Finite 0)
    \<and> (es = [] \<longrightarrow> series_expenses r ! j = Finite 0)
    \<and> (months r ! j \<notin> fst ` set (series_rows e ''invoice'' (lower_bound (months r)) (transactions st))
          \<longrightarrow> series_revenue r ! j = Finite 0)
    \<and> (months r ! j \<notin> fst ` set (series_rows e ''expense'' (lower_bound (months r)) (transactions st))
          \<longrightarrow> series_expenses r ! j = Finite 0)
    \<and> ((months r ! j, Finite 0) \<in> set (series_rows e ''invoice'' (lower_bound (months r)) (transactions st))
          \<longrightarrow> series_revenue r ! j = Finite 0)
    \<and> ((months r ! j, Finite 0) \<in> set (series_rows e ''expense'' (lower_bound (months r)) (transactions st))
          \<longrightarrow> series_expenses r ! j = Finite 0)
    \<and> ((\<forall>t\<in>set (transactions st). calendar_date (date t)) \<longrightarrow>
          rs = filter (\<lambda>t. tx_type t = ''invoice'' \<and> take 7 (date t) = months r ! j) (transactions st)
        \<and> es = filter (\<lambda>t. tx_type t = ''expense'' \<and> take 7 (date t) = months r ! j) (transactions st))"
proof -
  define n where "n = (case q of None \<Rightarrow> 6 | Some k \<Rightarrow> k)"
  from r obtain ms where ms: "months_loop e (n - 1) [] = Inr ms"
    and rd: "r = \<lparr> labels = map (month_label e) ms, months = ms,
        series_revenue = map (bucket (to_map (series_rows e ''invoice'' (lower_bound ms) (transactions st)))) ms,
        series_expenses = map (bucket (to_map (series_rows e ''expense'' (lower_bound ms) (transactions st)))) ms \<rparr>"
    by (auto simp add: revenue_series_def Let_def n_def split: sum.splits)
  have m: "months r = ms" and jm: "j < length ms" using rd j by simp_all
  have rev: "series_revenue r ! j = bucket (to_map (series_rows e ''invoice'' (lower_bound ms) (transactions st))) (ms ! j)"
    and exp: "series_expenses r ! j = bucket (to_map (series_rows e ''expense'' (lower_bound ms) (transactions st))) (ms ! j)"
    using rd jm by simp_all
  have a: "series_revenue r ! j = number_or_zero (Math_round (db_sum e (non_null (map debit rs))))"
    and b: "series_expenses r ! j = number_or_zero (Math_round (db_sum e (non_null (map debit es))))"
    unfolding rev exp rs es m by (rule bucket_series_rows)+
  have c: "series_revenue r ! j = Finite (of_int \<lfloor>(\<Sum>t\<leftarrow>rs. num0 (debit t)) + 1 / 2\<rfloor>)"
    if "adds_exactly e (non_null (map debit rs))"
    using Math_round_db_sum_exact [OF that] a by (simp add: sum_list_non_null comp_def)
  have d: "series_expenses r ! j = Finite (of_int \<lfloor>(\<Sum>t\<leftarrow>es. num0 (debit t)) + 1 / 2\<rfloor>)"
    if "adds_exactly e (non_null (map debit es))"
    using Math_round_db_sum_exact [OF that] b by (simp add: sum_list_non_null comp_def)
  have e0: "rs = [] \<longrightarrow> series_revenue r ! j = Finite 0" "es = [] \<longrightarrow> series_expenses r ! j = Finite 0"
    using a b by (simp_all add: db_sum_def)
  have f: "months r ! j \<notin> fst ` set (series_rows e ''invoice'' (lower_bound (months r)) (transactions st))
          \<longrightarrow> series_revenue r ! j = Finite 0"
      "months r ! j \<notin> fst ` set (series_rows e ''expense'' (lower_bound (months r)) (transactions st))
          \<longrightarrow> series_expenses r ! j = Finite 0"
    unfolding rev exp m using bucket_absent by blast+
  have g: "(months r ! j, Finite 0) \<in> set (series_rows e ''invoice'' (lower_bound (months r)) (transactions st))
          \<longrightarrow> series_revenue r ! j = Finite 0"
      "(months r ! j, Finite 0) \<in> set (series_rows e ''expense'' (lower_bound (months r)) (transactions st))
          \<longrightarrow> series_expenses r ! j = Finite 0"
    unfolding rev exp m using bucket_zero by blast+
  have h: "rs = filter (\<lambda>t. tx_type t = ''invoice'' \<and> take 7 (date t) = months r ! j) (transactions st)
        \<and> es = filter (\<lambda>t. tx_type t = ''expense'' \<and> take 7 (date t) = months r ! j) (transactions st)"
    if "\<forall>t\<in>set (transactions st). calendar_date (date t)"
    unfolding rs es m using lower_bound_admits [OF that ms jm] by simp
  show ?thesis using a b c d e0 f g h by blast
qed

theorem revenue_series_buckets_witness:
  "revenue_series env_utc ledger (Some 3) =
     Inr \<lparr> labels = [''Jan'', ''Feb'', ''Mar''], months = [''2024-01'', ''2024-02'', ''2024-03''],
           series_revenue = [Finite 103, Finite 0, Finite 0],
           series_expenses = [Finite 0, Finite 40, Finite 0] \<rparr>
   \<and> (\<Sum>t\<leftarrow>filter (\<lambda>t. tx_type t = ''invoice'' \<and> take 7 (date t) = ''2024-01'')
             (transactions ledger). num0 (debit t)) = 205 / 2
   \<and> (\<Sum>t\<leftarrow>filter (\<lambda>t. tx_type t = ''expense'' \<and> take 7 (date t) = ''2024-02'')
             (transactions ledger). num0 (debit t)) = 161 / 4"
proof -
  let ?r = "\<lparr> labels = [''Jan'', ''Feb'', ''Mar''], months = [''2024-01'', ''2024-02'', ''2024-03''],
           series_revenue = [Finite 103, Finite 0, Finite 0],
           series_expenses = [Finite 0, Finite 40, Finite 0] \<rparr>"
  have r: "revenue_series env_utc ledger (Some 3) = Inr ?r" by code_simp
  have j0: "0 < length (months ?r)" and j1: "1 < length (months ?r)" by simp_all
  have s0: "(\<Sum>t\<leftarrow>filter (\<lambda>t. tx_type t = ''invoice'' \<and> take 7 (date t) = ''2024-01'')
             (transactions ledger). num0 (debit t)) = 205 / 2"
    and s1: "(\<Sum>t\<leftarrow>filter (\<lambda>t. tx_type t = ''expense'' \<and> take 7 (date t) = ''2024-02'')
             (transactions ledger). num0 (debit t)) = 161 / 4"
    by (simp_all add: ledger_def num0_def)
  have iso: "\<forall>t\<in>set (transactions ledger). calendar_date (date t)"
    by (simp add: ledger_def calendar_date_def iso_date_def is_digit_def)
  note t0 = revenue_series_buckets [OF r j0 refl refl]
  note t1 = revenue_series_buckets [OF r j1 refl refl]
  have "series_revenue ?r ! 0 = Finite 103" "series_expenses ?r ! 1 = Finite 40" by simp_all
  then show ?thesis using r s0 s1 t0 t1 by blast
qed

text \<open>
  C3 as stated fails on a date that the lower bound of the query excludes. In March
  2024, with one bucket, the ledger holds an invoice of 10 dated \<^verbatim>\<open>2024-03\<close> and one
  of 5 dated \<^verbatim>\<open>2024-03-01\<close>: both dates begin with the bucket month and their sum is
  15, but the query asks for dates from \<^verbatim>\<open>2024-03-01\<close> on, and the revenue entry is
  5.
\<close>

theorem revenue_series_buckets_counterexample:
  "months_of (revenue_series env_utc month_ledger (Some 1)) = [''2024-03'']
   \<and> revenue_of (revenue_series env_utc month_ledger (Some 1)) = [Finite 5]
   \<and> (\<Sum>t\<leftarrow>filter (\<lambda>t. tx_type t = ''invoice'' \<and> take 7 (date t) = ''2024-03'')
             (transactions month_ledger). num0 (debit t)) = 15"
proof -
  have "months_of (revenue_series env_utc month_ledger (Some 1)) = [''2024-03'']" by code_simp
  moreover have "revenue_of (revenue_series env_utc month_ledger (Some 1)) = [Finite 5]" by code_simp
  moreover have "(\<Sum>t\<leftarrow>filter (\<lambda>t. tx_type t = ''invoice'' \<and> take 7 (date t) = ''2024-03'')
             (transactions month_ledger). num0 (debit t)) = 15"
    by (simp add: month_ledger_def num0_def)
  ultimately show ?thesis by blast
qed

subsection \<open>Category breakdown\<close>

lemma order_desc_mset [simp]: "mset (order_desc key rows) = mset rows"
  by (simp add: order_desc_def)

lemma order_desc_set [simp]: "set (order_desc key rows) = set rows"
  by (simp add: order_desc_def)

lemma order_desc_length [simp]: "length (order_desc key rows) = length rows"
  by (simp add: order_desc_def)

lemma order_desc_sorted: "sorted_wrt (\<lambda>a b. key b \<le> key a) (order_desc key rows)"
proof -
  have "sorted_wrt (\<lambda>a b. key a \<le> key b) (sort_key key rows)"
    using sorted_sort_key [of key rows] by (simp add: sorted_wrt_map)
  then show ?thesis by (simp add: order_desc_def sorted_wrt_rev)
qed

lemma order_desc_sum: "(\<Sum>r\<leftarrow>order_desc key rows. f r) = (\<Sum>r\<leftarrow>rows. (f r :: 'b::comm_monoid_add))"
proof -
  have "mset (map f (order_desc key rows)) = mset (map f rows)" by simp
  then show ?thesis by (metis sum_mset_sum_list)
qed

lemma sum_filter_split:
  "(\<And>s. \<not> (P s \<and> Q s)) \<Longrightarrow>
   (\<Sum>s\<leftarrow>filter (\<lambda>s. P s \<or> Q s) ss. (g s :: real)) = (\<Sum>s\<leftarrow>filter P ss. g s) + (\<Sum>s\<leftarrow>filter Q ss. g s)"
  by (induction ss) auto

lemma sum_over_keys:
  "distinct ids \<Longrightarrow>
   (\<Sum>i\<leftarrow>ids. \<Sum>s\<leftarrow>filter (\<lambda>s. f s = i \<and> P s) ss. (g s :: real))
     = (\<Sum>s\<leftarrow>filter (\<lambda>s. P s \<and> f s \<in> set ids) ss. g s)"
proof (induction ids)
  case Nil
  then show ?case by simp
next
  case (Cons i ids)
  have "filter (\<lambda>s. P s \<and> f s \<in> set (i # ids)) ss
      = filter (\<lambda>s. (f s = i \<and> P s) \<or> (P s \<and> f s \<in> set ids)) ss"
    by (intro filter_cong) auto
  moreover have "(\<Sum>s\<leftarrow>filter (\<lambda>s. (f s = i \<and> P s) \<or> (P s \<and> f s \<in> set ids)) ss. g s)
      = (\<Sum>s\<leftarrow>filter (\<lambda>s. f s = i \<and> P s) ss. g s) + (\<Sum>s\<leftarrow>filter (\<lambda>s. P s \<and> f s \<in> set ids) ss. g s)"
    using Cons.prems by (intro sum_filter_split) auto
  ultimately show ?case using Cons by simp
qed

lemma non_null_Some [simp]: "non_null (map (\<lambda>x. Some (f x)) xs) = map f xs"
  by (induction xs) simp_all

lemma category_total_eq:
  "category_total e sales m c =
     (name c, db_sum e (map amount (filter (\<lambda>cs. category_id cs = cat_id c \<and> month cs = m) sales)))"
  by (simp add: category_total_def ifnull_sql_sum_real)

lemma utc_now_key_eq:
  assumes "0 \<le> utc_year e \<and> utc_year e \<le> 9999 \<and> 0 \<le> utc_month e \<and> utc_month e \<le> 11"
  shows "utc_now_key e = month_key (12 * utc_year e + utc_month e)"
proof -
  have "(12 * utc_year e + utc_month e) div 12 = utc_year e"
    "(12 * utc_year e + utc_month e) mod 12 = utc_month e"
    using assms by simp_all
  then show ?thesis using assms by (simp add: utc_now_key_def month_key_def iso_year_def)
qed

lemma sorted_wrt_finite:
  "sorted_wrt (\<lambda>a b. number_key (snd b) \<le> number_key (snd a)) rows
     \<Longrightarrow> \<forall>r\<in>set rows. \<exists>x. snd r = Finite x
     \<Longrightarrow> sorted_wrt (\<lambda>a b. finite_value (snd b) \<le> finite_value (snd a)) rows"
proof (induction rows)
  case Nil
  then show ?case by simp
next
  case (Cons r rows)
  have "finite_value (snd b) \<le> finite_value (snd r)" if "b \<in> set rows" for b
  proof -
    have "\<exists>x. snd r = Finite x" "\<exists>y. snd b = Finite y" using Cons.prems(2) that by simp_all
    then obtain x y where "snd r = Finite x" "snd b = Finite y" by blast
    moreover have "number_key (snd b) \<le> number_key (snd r)" using Cons.prems(1) that by simp
    ultimately show ?thesis by simp
  qed
  then show ?case using Cons by simp
qed

text \<open>
  C4, as the code has it. Let \<open>m\<close> be the month of the request: the parameter when
  it is given and not empty, the current month in UTC otherwise. The category breakdown
  returns one entry for every category, whose total is what the database returns as the
  sum of the amounts of the category's sales in month \<open>m\<close>, ordered by total
  descending; a category without a sale in \<open>m\<close> has total \<open>0\<close>. Whenever the
  engine adds the amounts of every category exactly, each total is the sum of these
  amounts and, category ids being unique, the totals add up to the sum of the amounts
  of the sales of month \<open>m\<close> whose \<open>category_id\<close> is the id of a category.
\<close>

theorem category_sales_month_totals:
  assumes m: "mq = Some m \<and> m \<noteq> [] \<or> (mq = None \<or> mq = Some []) \<and> m = utc_now_key e"
    and sales: "sales = (\<lambda>c. filter (\<lambda>cs. category_id cs = cat_id c \<and> month cs = m) (category_sales st))"
  shows "\<exists>rows. category_sales_month e st mq = Inr rows
     \<and> mset rows = mset (map (\<lambda>c. (name c, db_sum e (map amount (sales c)))) (categories st))
     \<and> sorted_wrt (\<lambda>a b. number_key (snd b) \<le> number_key (snd a)) rows
     \<and> (\<forall>c\<in>set (categories st). sales c = [] \<longrightarrow> (name c, Finite 0) \<in> set rows)
     \<and> ((\<forall>c\<in>set (categories st). adds_exactly e (map amount (sales c))) \<longrightarrow>
          mset rows = mset (map (\<lambda>c. (name c, Finite (\<Sum>cs\<leftarrow>sales c. amount cs))) (categories st))
        \<and> sorted_wrt (\<lambda>a b. finite_value (snd b) \<le> finite_value (snd a)) rows
        \<and> (distinct (map cat_id (categories st)) \<longrightarrow>
             (\<Sum>r\<leftarrow>rows. finite_value (snd r)) =
             (\<Sum>cs\<leftarrow>filter (\<lambda>cs. month cs = m \<and> category_id cs \<in> cat_id ` set (categories st))
                      (category_sales st). amount cs)))
     \<and> (0 \<le> utc_year e \<and> utc_year e \<le> 9999 \<and> 0 \<le> utc_month e \<and> utc_month e \<le> 11 \<longrightarrow>
          utc_now_key e = month_key (12 * utc_year e + utc_month e))"
proof -
  let ?tot = "\<lambda>c. (name c, db_sum e (map amount (sales c)))"
  let ?sum = "\<lambda>c. (name c, Finite (\<Sum>cs\<leftarrow>sales c. amount cs))"
  let ?rows = "order_desc (\<lambda>r. number_key (snd r)) (map ?tot (categories st))"
  have om: "or_default mq (utc_now_key e) = m" using m by (auto simp add: or_default_def)
  have res: "category_sales_month e st mq = Inr ?rows"
    by (simp add: category_sales_month_def Let_def om category_total_eq [abs_def] sales)
  have ms: "mset ?rows = mset (map ?tot (categories st))" by simp
  have so: "sorted_wrt (\<lambda>a b. number_key (snd b) \<le> number_key (snd a)) ?rows"
    by (rule order_desc_sorted)
  have zero: "(name c, Finite 0) \<in> set ?rows" if "c \<in> set (categories st)" "sales c = []" for c
  proof -
    have "?tot c = (name c, Finite 0)" using that(2) by (simp add: db_sum_def)
    then show ?thesis using that(1) by (simp add: image_iff) (metis)
  qed
  have exact: "mset ?rows = mset (map ?sum (categories st))
        \<and> sorted_wrt (\<lambda>a b. finite_value (snd b) \<le> finite_value (snd a)) ?rows
        \<and> (distinct (map cat_id (categories st)) \<longrightarrow>
             (\<Sum>r\<leftarrow>?rows. finite_value (snd r)) =
             (\<Sum>cs\<leftarrow>filter (\<lambda>cs. month cs = m \<and> category_id cs \<in> cat_id ` set (categories st))
                      (category_sales st). amount cs))"
    if ex: "\<forall>c\<in>set (categories st). adds_exactly e (map amount (sales c))"
  proof -
    have eq: "map ?tot (categories st) = map ?sum (categories st)"
      using ex by (intro map_cong) (simp_all add: db_sum_exact comp_def)
    have fin: "\<forall>r\<in>set ?rows. \<exists>x. snd r = Finite x" unfolding eq by auto
    have s: "sorted_wrt (\<lambda>a b. finite_value (snd b) \<le> finite_value (snd a)) ?rows"
      using so fin by (rule sorted_wrt_finite)
    have total: "(\<Sum>r\<leftarrow>?rows. finite_value (snd r)) =
          (\<Sum>cs\<leftarrow>filter (\<lambda>cs. month cs = m \<and> category_id cs \<in> cat_id ` set (categories st))
                   (category_sales st). amount cs)"
      if d: "distinct (map cat_id (categories st))"
    proof -
      have "(\<Sum>r\<leftarrow>?rows. finite_value (snd r)) = (\<Sum>r\<leftarrow>map ?tot (categories st). finite_value (snd r))"
        by (rule order_desc_sum)
      also have "\<dots> = (\<Sum>r\<leftarrow>map ?sum (categories st). finite_value (snd r))" unfolding eq ..
      also have "\<dots> = (\<Sum>i\<leftarrow>map cat_id (categories st).
          \<Sum>cs\<leftarrow>filter (\<lambda>cs. category_id cs = i \<and> month cs = m) (category_sales st). amount cs)"
        by (simp add: comp_def sales)
      also have "\<dots> = (\<Sum>cs\<leftarrow>filter (\<lambda>cs. month cs = m \<and> category_id cs \<in> set (map cat_id (categories st)))
                     (category_sales st). amount cs)"
        using d by (rule sum_over_keys)
      finally show ?thesis by simp
    qed
    have "mset ?rows = mset (map ?sum (categories st))" using ms eq by (simp only:)
    then show ?thesis using s total by blast
  qed
  show ?thesis using res ms so zero exact utc_now_key_eq [of e] by blast
qed

theorem category_sales_month_totals_witness:
  "category_sales_month env_utc ledger (Some ''2024-02'')
     = Inr [(''Software'', Finite 90), (''Services'', Finite 0), (''Hardware'', Finite 0)]
   \<and> (\<Sum>cs\<leftarrow>filter (\<lambda>cs. month cs = ''2024-02'' \<and> category_id cs \<in> cat_id ` set (categories ledger))
                   (category_sales ledger). amount cs) = 90
   \<and> category_sales_month env_utc ledger None
     = Inr [(''Software'', Finite 25), (''Hardware'', Finite 15), (''Services'', Finite 0)]
   \<and> (\<Sum>cs\<leftarrow>filter (\<lambda>cs. month cs = ''2024-03'' \<and> category_id cs \<in> cat_id ` set (categories ledger))
                   (category_sales ledger). amount cs) = 40"
proof -
  have d: "distinct (map cat_id (categories ledger))" by (simp add: ledger_def)
  have ex: "\<forall>c\<in>set (categories ledger). adds_exactly env_utc (map amount
      (filter (\<lambda>cs. category_id cs = cat_id c \<and> month cs = m) (category_sales ledger)))" for m
    by (simp add: adds_exactly_def env_utc_def sample_sum_def sample_double_def max_double_def ledger_def)
  have m1: "Some ''2024-02'' = Some ''2024-02'' \<and> ''2024-02'' \<noteq> []
      \<or> (Some ''2024-02'' = None \<or> Some ''2024-02'' = Some []) \<and> ''2024-02'' = utc_now_key env_utc"
    by simp
  have k: "utc_now_key env_utc = ''2024-03''" by code_simp
  have m2: "None = Some ''2024-03'' \<and> ''2024-03'' \<noteq> []
      \<or> (None = None \<or> None = Some []) \<and> ''2024-03'' = utc_now_key env_utc"
    using k by simp
  have r1: "category_sales_month env_utc ledger (Some ''2024-02'')
     = Inr [(''Software'', Finite 90), (''Services'', Finite 0), (''Hardware'', Finite 0)]" by code_simp
  have r2: "category_sales_month env_utc ledger None
     = Inr [(''Software'', Finite 25), (''Hardware'', Finite 15), (''Services'', Finite 0)]" by code_simp
  from category_sales_month_totals [OF m1 refl, where st = ledger] ex [of "''2024-02''"] d obtain rows1
    where a1: "category_sales_month env_utc ledger (Some ''2024-02'') = Inr rows1"
      and t1: "(\<Sum>r\<leftarrow>rows1. finite_value (snd r)) =
          (\<Sum>cs\<leftarrow>filter (\<lambda>cs. month cs = ''2024-02'' \<and> category_id cs \<in> cat_id ` set (categories ledger))
                   (category_sales ledger). amount cs)"
    by blast
  from category_sales_month_totals [OF m2 refl, where st = ledger] ex [of "''2024-03''"] d obtain rows2
    where a2: "category_sales_month env_utc ledger None = Inr rows2"
      and t2: "(\<Sum>r\<leftarrow>rows2. finite_value (snd r)) =
          (\<Sum>cs\<leftarrow>filter (\<lambda>cs. month cs = ''2024-03'' \<and> category_id cs \<in> cat_id ` set (categories ledger))
                   (category_sales ledger). amount cs)"
    by blast
  from a1 r1 have "rows1 = [(''Software'', Finite 90), (''Services'', Finite 0), (''Hardware'', Finite 0)]"
    by simp
  then have s1: "(\<Sum>r\<leftarrow>rows1. finite_value (snd r)) = 90" by simp
  from a2 r2 have "rows2 = [(''Software'', Finite 25), (''Hardware'', Finite 15), (''Services'', Finite 0)]"
    by simp
  then have s2: "(\<Sum>r\<leftarrow>rows2. finite_value (snd r)) = 40" by simp
  show ?thesis using r1 r2 s1 s2 t1 t2 by simp
qed

text \<open>
  C4 as stated fails where the sum of the amounts exceeds every double. A category
  with two sales of \<open>2 ^ 1023\<close> in the month has the sum \<open>2 ^ 1024\<close>; the total
  returned is infinity (which the response renders as \<^verbatim>\<open>null\<close>).
\<close>

theorem category_sales_month_counterexample:
  "category_sales_month env_utc big_sales (Some ''2024-03'') = Inr [(''Hardware'', Infinity)]
   \<and> (\<Sum>cs\<leftarrow>filter (\<lambda>cs. category_id cs = 1 \<and> month cs = ''2024-03'') (category_sales big_sales).
         amount cs) = 2 * half_max
   \<and> max_double < 2 * half_max"
proof -
  have "category_sales_month env_utc big_sales (Some ''2024-03'') = Inr [(''Hardware'', Infinity)]"
    by code_simp
  moreover have "(\<Sum>cs\<leftarrow>filter (\<lambda>cs. category_id cs = 1 \<and> month cs = ''2024-03'') (category_sales big_sales).
         amount cs) = 2 * half_max"
    by (simp add: big_sales_def)
  moreover have "max_double < 2 * half_max" by (simp add: max_double_def half_max_def)
  ultimately show ?thesis by blast
qed

subsection \<open>Listing transactions\<close>

lemma like_percent [simp]: "like ''%'' s"
  by (induction s) simp_all




lemma transactions_list_eq:
  "transactions_list st q ty lq oq =
     (if must_be_int (case lq of None \<Rightarrow> 100 | Some n \<Rightarrow> n)
         \<and> must_be_int (case oq of None \<Rightarrow> 0 | Some n \<Rightarrow> n)
      then Inr (limit_offset (case lq of None \<Rightarrow> 100 | Some n \<Rightarrow> n) (case oq of None \<Rightarrow> 0 | Some n \<Rightarrow> n)
       (order_desc (\<lambda>t. (date t, tx_id t))
         (filter (\<lambda>t. (trim (or_default ty []) \<noteq> [] \<longrightarrow> tx_type t = trim (or_default ty []))
             \<and> (trim (or_default q []) \<noteq> [] \<longrightarrow>
                  like (''%'' @ trim (or_default q []) @ ''%'') (reference t)
                  \<or> like (''%'' @ trim (or_default q []) @ ''%'') (account t)
                  \<or> like (''%'' @ trim (or_default q []) @ ''%'') (date t)))
           (transactions st))))
      else Inl Server_error)"
  by (simp add: transactions_list_def Let_def)




lemma trim_blank: "list_all is_space s \<Longrightarrow> trim s = []"
proof -
  assume "list_all is_space s"
  then have "\<forall>x\<in>set s. is_space x" by (simp add: list_all_iff)
  then have d: "dropWhile is_space s = []" by (simp only: dropWhile_eq_Nil_conv)
  show ?thesis unfolding trim_def d by simp
qed

lemma rows_of_type:
  assumes "trim (or_default ty []) \<noteq> []" and "t \<in> set (rows_of (transactions_list st q ty lq oq))"
  shows "tx_type t = trim (or_default ty [])"
proof -
  have sub: "set (limit_offset l k xs) \<subseteq> set xs" for l k and xs :: "transaction list"
    by (auto simp add: limit_offset_def dest: in_set_takeD in_set_dropD)
  from assms(2) obtain l k P where "t \<in> set (limit_offset l k (order_desc (\<lambda>t. (date t, tx_id t))
      (filter (\<lambda>t. (trim (or_default ty []) \<noteq> [] \<longrightarrow> tx_type t = trim (or_default ty [])) \<and> P t)
        (transactions st))))"
    unfolding transactions_list_eq rows_of_def by (auto split: if_splits)
  then have "t \<in> set (filter (\<lambda>t. (trim (or_default ty []) \<noteq> [] \<longrightarrow> tx_type t = trim (or_default ty [])) \<and> P t)
        (transactions st))"
    using sub by fastforce
  then show ?thesis using assms(1) by simp
qed

text \<open>
  C10. A \<^verbatim>\<open>q\<close> or \<^verbatim>\<open>type\<close> parameter of white space only (or empty) gives the
  result of the request without that parameter. So no request filters for the empty
  type: a request either applies no type filter or returns only transactions whose type
  is not empty.
\<close>

theorem transactions_list_blank:
  assumes "list_all is_space s"
  shows "transactions_list st (Some s) ty lq oq = transactions_list st None ty lq oq
     \<and> transactions_list st q (Some s) lq oq = transactions_list st q None lq oq
     \<and> (transactions_list st q ty lq oq = transactions_list st q None lq oq
          \<or> (\<forall>t\<in>set (rows_of (transactions_list st q ty lq oq)). tx_type t \<noteq> []))"
proof -
  have t: "trim (or_default (Some s) []) = []" "trim (or_default None []) = []"
    using trim_blank [OF assms] by (simp_all add: or_default_def trim_def)
  have a: "transactions_list st (Some s) ty lq oq = transactions_list st None ty lq oq"
    by (simp add: transactions_list_eq t)
  have b: "transactions_list st q (Some s) lq oq = transactions_list st q None lq oq"
    by (simp add: transactions_list_eq t)
  have c: "transactions_list st q ty lq oq = transactions_list st q None lq oq
          \<or> (\<forall>t\<in>set (rows_of (transactions_list st q ty lq oq)). tx_type t \<noteq> [])"
  proof (cases "trim (or_default ty []) = []")
    case True
    then show ?thesis by (simp add: transactions_list_eq t)
  next
    case False
    then show ?thesis using rows_of_type by metis
  qed
  show ?thesis using a b c by blast
qed

theorem transactions_list_blank_witness:
  "transactions_list ledger (Some [CHR '' '', CHR 0x09]) (Some ''expense'') None None
     = transactions_list ledger None (Some ''expense'') None None
   \<and> transactions_list ledger (Some ''EXP'') (Some [CHR '' '', CHR 0x09]) None None
     = transactions_list ledger (Some ''EXP'') None None None
   \<and> map tx_id (rows_of (transactions_list ledger None (Some [CHR '' '', CHR 0x09]) None None)) = [2, 3, 1]"
proof -
  have s: "list_all is_space [CHR '' '', CHR 0x09]" by (simp add: is_space_def)
  have r: "map tx_id (rows_of (transactions_list ledger None None None None)) = [2, 3, 1]"
    by code_simp
  from transactions_list_blank [OF s, of ledger "Some ''expense''" None None "Some ''EXP''"]
    transactions_list_blank [OF s, of ledger None None None None] r
  show ?thesis by simp
qed

subsection \<open>Create, update and delete\<close>

lemma fold_max_ge: "(a::int) \<le> fold max xs a \<and> (\<forall>x\<in>set xs. x \<le> fold max xs a)"
proof (induction xs arbitrary: a)
  case Nil
  then show ?case by simp
next
  case (Cons x xs)
  have "max x a \<le> fold max xs (max x a)" "\<forall>y\<in>set xs. y \<le> fold max xs (max x a)"
    using Cons.IH [of "max x a"] by simp_all
  then show ?case by auto
qed

lemma next_id_fresh: "seq st < next_id st \<and> (\<forall>t\<in>set (transactions st). tx_id t < next_id st)"
  using fold_max_ge [of "seq st" "map tx_id (transactions st)"]
  by (auto simp add: next_id_def)

lemma find_snoc: "(\<forall>x\<in>set xs. \<not> P x) \<Longrightarrow> P y \<Longrightarrow> find P (xs @ [y]) = Some y"
  by (induction xs) simp_all

lemma find_none: "(\<forall>x\<in>set xs. \<not> P x) \<Longrightarrow> find P xs = None"
  by (induction xs) simp_all

text \<open>
  C7. A create request in which date, reference, type or account is missing or empty is
  answered with \<open>Bad_request\<close> (status 400) and leaves the store as it was. Any other
  request appends one row with the submitted fields, \<open>debit\<close> and \<open>credit\<close> being
  \<open>0\<close> where omitted, under a new id larger than every id of the table, and the
  response carries that row.
\<close>

theorem create_validates:
  "((body_date b = None \<or> body_date b = Some [] \<or> body_reference b = None \<or> body_reference b = Some []
      \<or> body_type b = None \<or> body_type b = Some [] \<or> body_account b = None \<or> body_account b = Some [])
     \<longrightarrow> create now st b = (Inl Bad_request, st))
   \<and> (\<not> (body_date b = None \<or> body_date b = Some [] \<or> body_reference b = None \<or> body_reference b = Some []
      \<or> body_type b = None \<or> body_type b = Some [] \<or> body_account b = None \<or> body_account b = Some [])
     \<longrightarrow> (\<exists>row. create now st b
            = (Inr (Some row), st \<lparr> transactions := transactions st @ [row], seq := tx_id row \<rparr>)
          \<and> Some (date row) = body_date b \<and> Some (reference row) = body_reference b
          \<and> Some (tx_type row) = body_type b \<and> Some (account row) = body_account b
          \<and> debit row = (case body_debit b of Omitted \<Rightarrow> Some 0 | Null \<Rightarrow> None | Num x \<Rightarrow> Some x)
          \<and> credit row = (case body_credit b of Omitted \<Rightarrow> Some 0 | Null \<Rightarrow> None | Num x \<Rightarrow> Some x)
          \<and> seq st < tx_id row \<and> (\<forall>t\<in>set (transactions st). tx_id t < tx_id row)))"
proof (intro conjI impI)
  assume "body_date b = None \<or> body_date b = Some [] \<or> body_reference b = None \<or> body_reference b = Some []
      \<or> body_type b = None \<or> body_type b = Some [] \<or> body_account b = None \<or> body_account b = Some []"
  then have "falsy (body_date b) \<or> falsy (body_reference b) \<or> falsy (body_type b) \<or> falsy (body_account b)"
    by (auto simp add: falsy_def)
  then show "create now st b = (Inl Bad_request, st)" by (simp add: create_def)
next
  assume ok: "\<not> (body_date b = None \<or> body_date b = Some [] \<or> body_reference b = None \<or> body_reference b = Some []
      \<or> body_type b = None \<or> body_type b = Some [] \<or> body_account b = None \<or> body_account b = Some [])"
  then have nf: "\<not> (falsy (body_date b) \<or> falsy (body_reference b) \<or> falsy (body_type b) \<or> falsy (body_account b))"
    by (auto simp add: falsy_def split: option.splits)
  define row where "row = \<lparr> tx_id = next_id st, date = the (body_date b), reference = the (body_reference b),
                     tx_type = the (body_type b), account = the (body_account b),
                     debit = with_default (body_debit b) 0, credit = with_default (body_credit b) 0,
                     created_at = Some now \<rparr>"
  have id: "tx_id row = next_id st" by (simp add: row_def)
  have "\<forall>t\<in>set (transactions st). \<not> Some (tx_id t) = Some (next_id st)"
    using next_id_fresh [of st] by auto
  then have "find (\<lambda>t. Some (tx_id t) = Some (next_id st)) (transactions st @ [row]) = Some row"
    by (intro find_snoc) (simp_all add: id)
  then have "create now st b
      = (Inr (Some row), st \<lparr> transactions := transactions st @ [row], seq := tx_id row \<rparr>)"
    using nf by (simp add: create_def Let_def get_by_id_def row_def [symmetric] id)
  moreover have "Some (date row) = body_date b" "Some (reference row) = body_reference b"
      "Some (tx_type row) = body_type b" "Some (account row) = body_account b"
    using ok by (auto simp add: row_def)
  moreover have "debit row = (case body_debit b of Omitted \<Rightarrow> Some 0 | Null \<Rightarrow> None | Num x \<Rightarrow> Some x)"
      "credit row = (case body_credit b of Omitted \<Rightarrow> Some 0 | Null \<Rightarrow> None | Num x \<Rightarrow> Some x)"
    by (simp_all add: row_def with_default_def)
  moreover have "seq st < tx_id row" "\<forall>t\<in>set (transactions st). tx_id t < tx_id row"
    using next_id_fresh [of st] by (simp_all add: id)
  ultimately show "\<exists>row. create now st b
            = (Inr (Some row), st \<lparr> transactions := transactions st @ [row], seq := tx_id row \<rparr>)
          \<and> Some (date row) = body_date b \<and> Some (reference row) = body_reference b
          \<and> Some (tx_type row) = body_type b \<and> Some (account row) = body_account b
          \<and> debit row = (case body_debit b of Omitted \<Rightarrow> Some 0 | Null \<Rightarrow> None | Num x \<Rightarrow> Some x)
          \<and> credit row = (case body_credit b of Omitted \<Rightarrow> Some 0 | Null \<Rightarrow> None | Num x \<Rightarrow> Some x)
          \<and> seq st < tx_id row \<and> (\<forall>t\<in>set (transactions st). tx_id t < tx_id row)"
    by blast
qed

theorem create_validates_witness:
  "create ''2024-03-01 12:00:00'' ledger (sample_body \<lparr> body_account := Some [] \<rparr>) = (Inl Bad_request, ledger)
   \<and> fst (create ''2024-03-01 12:00:00'' ledger sample_body)
       = Inr (Some \<lparr> tx_id = 4, date = ''2024-03-01'', reference = ''INV-3'', tx_type = ''invoice'',
              account = ''Sales'', debit = Some 0, credit = None,
              created_at = Some ''2024-03-01 12:00:00'' \<rparr>)
   \<and> length (transactions (snd (create ''2024-03-01 12:00:00'' ledger sample_body))) = 4"
proof -
  have a: "create ''2024-03-01 12:00:00'' ledger (sample_body \<lparr> body_account := Some [] \<rparr>) = (Inl Bad_request, ledger)"
    using create_validates [of "sample_body \<lparr> body_account := Some [] \<rparr>" "''2024-03-01 12:00:00''" ledger]
    by simp
  have ok: "\<not> (body_date sample_body = None \<or> body_date sample_body = Some []
      \<or> body_reference sample_body = None \<or> body_reference sample_body = Some []
      \<or> body_type sample_body = None \<or> body_type sample_body = Some []
      \<or> body_account sample_body = None \<or> body_account sample_body = Some [])"
    by (simp add: sample_body_def)
  from create_validates [of sample_body "''2024-03-01 12:00:00''" ledger] ok
  obtain row where r: "create ''2024-03-01 12:00:00'' ledger sample_body
            = (Inr (Some row), ledger \<lparr> transactions := transactions ledger @ [row], seq := tx_id row \<rparr>)"
    by blast
  have e: "fst (create ''2024-03-01 12:00:00'' ledger sample_body)
       = Inr (Some \<lparr> tx_id = 4, date = ''2024-03-01'', reference = ''INV-3'', tx_type = ''invoice'',
              account = ''Sales'', debit = Some 0, credit = None,
              created_at = Some ''2024-03-01 12:00:00'' \<rparr>)"
    by code_simp
  have "length (transactions (snd (create ''2024-03-01 12:00:00'' ledger sample_body))) = 4"
    unfolding r by (simp add: ledger_def)
  then show ?thesis using a e by blast
qed

text \<open>
  C8. For an id that no transaction has, delete answers with \<open>changes = 0\<close> and update
  (with the four required fields) with \<open>changes = 0\<close> and no row; both succeed and
  leave the store as it was.
\<close>

theorem nonexistent_id:
  assumes "\<forall>t\<in>set (transactions st). Some (tx_id t) \<noteq> i"
  shows "delete st i = (Inr 0, st)
     \<and> (\<not> (body_date b = None \<or> body_date b = Some [] \<or> body_reference b = None \<or> body_reference b = Some []
          \<or> body_type b = None \<or> body_type b = Some [] \<or> body_account b = None \<or> body_account b = Some [])
        \<longrightarrow> update st i b = (Inr (0, None), st))"
proof -
  have none: "filter (\<lambda>t. Some (tx_id t) = i) (transactions st) = []"
    using assms by (simp add: filter_empty_conv)
  have all: "filter (\<lambda>t. \<not> Some (tx_id t) = i) (transactions st) = transactions st"
    using assms by (simp add: filter_id_conv)
  have same: "map (\<lambda>t. if Some (tx_id t) = i then f t else t) (transactions st) = transactions st" for f
    using assms by (simp add: map_idI)
  have look: "find (\<lambda>t. Some (tx_id t) = i) (transactions st) = None"
    using assms by (intro find_none) simp
  have d: "delete st i = (Inr 0, st)" by (simp add: delete_def none all)
  have u: "update st i b = (Inr (0, None), st)"
    if "\<not> (body_date b = None \<or> body_date b = Some [] \<or> body_reference b = None \<or> body_reference b = Some []
          \<or> body_type b = None \<or> body_type b = Some [] \<or> body_account b = None \<or> body_account b = Some [])"
  proof -
    from that have "\<not> (falsy (body_date b) \<or> falsy (body_reference b) \<or> falsy (body_type b) \<or> falsy (body_account b))"
      by (auto simp add: falsy_def split: option.splits)
    then show ?thesis by (simp add: update_def Let_def none same get_by_id_def look)
  qed
  show ?thesis using d u by blast
qed

theorem nonexistent_id_witness:
  "delete ledger (Some 7) = (Inr 0, ledger) \<and> update ledger (Some 7) sample_body = (Inr (0, None), ledger)
   \<and> delete ledger None = (Inr 0, ledger)"
proof -
  have a: "\<forall>t\<in>set (transactions ledger). Some (tx_id t) \<noteq> Some 7"
    and b: "\<forall>t\<in>set (transactions ledger). Some (tx_id t) \<noteq> None"
    by (simp_all add: ledger_def)
  have ok: "\<not> (body_date sample_body = None \<or> body_date sample_body = Some []
      \<or> body_reference sample_body = None \<or> body_reference sample_body = Some []
      \<or> body_type sample_body = None \<or> body_type sample_body = Some []
      \<or> body_account sample_body = None \<or> body_account sample_body = Some [])"
    by (simp add: sample_body_def)
  from nonexistent_id [OF a, of sample_body] nonexistent_id [OF b, of sample_body] ok
  show ?thesis by blast
qed

subsection \<open>Export\<close>





end
